theory Spec2Isabelle
  imports Main
begin

section \<open>Data model (src/types.ts)\<close>

text \<open>
  \<^verbatim>\<open>TaskColumn\<close> and \<^verbatim>\<open>TaskPriority\<close> are string-literal unions; each becomes a
  datatype, with the literal it is written as on the wire.
\<close>

datatype TaskColumn = Backlog | Todo | Doing | Review | Done | Failed

datatype TaskPriority = Low | Medium | High | Urgent

fun column_name :: "TaskColumn \<Rightarrow> string" where
  "column_name Backlog = ''backlog''"
| "column_name Todo = ''todo''"
| "column_name Doing = ''doing''"
| "column_name Review = ''review''"
| "column_name Done = ''done''"
| "column_name Failed = ''failed''"

text \<open>
  Timestamps are ISO strings in the source, all of them written by
  \<^verbatim>\<open>new Date().toISOString()\<close> and read back only through
  \<^verbatim>\<open>new Date(s).getTime()\<close>. They are modelled by the number they denote:
  milliseconds since the epoch, an \<^typ>\<open>int\<close>. JavaScript numbers that hold counts
  (\<^verbatim>\<open>retryCount\<close>, \<^verbatim>\<open>maxRetries\<close>, \<^verbatim>\<open>durationMs\<close>) are \<^typ>\<open>int\<close> as well.
  An optional field (\<^verbatim>\<open>f?: T\<close>) is an \<^typ>\<open>'a option\<close>.
\<close>

record Comment =
  author :: string
  comment_text :: string
  at :: int

record NextTask =
  nt_title :: string
  nt_description :: "string option"
  nt_assignee :: string
  nt_priority :: "TaskPriority option"
  nt_tags :: "string list option"

record Task =
  task_id :: string
  projectId :: string
  title :: string
  description :: string
  status :: TaskColumn
  column :: TaskColumn
  assignee :: string
  createdBy :: string
  priority :: TaskPriority
  tags :: "string list"
  dependencies :: "string list"
  subtasks :: "string list"
  comments :: "Comment list"
  nextTask :: "NextTask option"
  parentTaskId :: "string option"
  deadline :: "string option"
  inputPath :: "string option"
  outputPath :: "string option"
  startedAt :: "int option"
  completedAt :: "int option"
  failedAt :: "int option"
  retryCount :: "int option"
  maxRetries :: "int option"
  requiresReview :: "bool option"
  durationMs :: "int option"
  createdAt :: int
  updatedAt :: int

text \<open>
  \<^verbatim>\<open>Partial<Task>\<close>: every key may be absent (\<^term>\<open>None\<close>). A key of an optional
  field may also be present with the value \<^verbatim>\<open>undefined\<close> (\<^term>\<open>Some None\<close>), which
  the spread \<^verbatim>\<open>{...task, ...updates}\<close> copies over the stored value;
  \<^verbatim>\<open>moveTask\<close> clears \<^verbatim>\<open>failedAt\<close> that way. A key of a required field, when
  present, holds a value of the field's type, as the request schemas and the callers
  in this repository have it.
\<close>

record TaskUpdates =
  u_id :: "string option"
  u_projectId :: "string option"
  u_title :: "string option"
  u_description :: "string option"
  u_status :: "TaskColumn option"
  u_column :: "TaskColumn option"
  u_assignee :: "string option"
  u_createdBy :: "string option"
  u_priority :: "TaskPriority option"
  u_tags :: "string list option"
  u_dependencies :: "string list option"
  u_subtasks :: "string list option"
  u_comments :: "Comment list option"
  u_nextTask :: "NextTask option option"
  u_parentTaskId :: "string option option"
  u_deadline :: "string option option"
  u_inputPath :: "string option option"
  u_outputPath :: "string option option"
  u_startedAt :: "int option option"
  u_completedAt :: "int option option"
  u_failedAt :: "int option option"
  u_retryCount :: "int option option"
  u_maxRetries :: "int option option"
  u_requiresReview :: "bool option option"
  u_durationMs :: "int option option"
  u_createdAt :: "int option"
  u_updatedAt :: "int option"

definition no_updates :: TaskUpdates where
  "no_updates = \<lparr> u_id = None, u_projectId = None, u_title = None, u_description = None,
     u_status = None, u_column = None, u_assignee = None, u_createdBy = None,
     u_priority = None, u_tags = None, u_dependencies = None, u_subtasks = None,
     u_comments = None, u_nextTask = None, u_parentTaskId = None, u_deadline = None,
     u_inputPath = None, u_outputPath = None, u_startedAt = None, u_completedAt = None,
     u_failedAt = None, u_retryCount = None, u_maxRetries = None, u_requiresReview = None,
     u_durationMs = None, u_createdAt = None, u_updatedAt = None \<rparr>"

text \<open>One key of the spread: the update's value when the key is present.\<close>

definition spread :: "'a \<Rightarrow> 'a option \<Rightarrow> 'a" where
  "spread old new = (case new of None \<Rightarrow> old | Some v \<Rightarrow> v)"

text \<open>\<^verbatim>\<open>{ ...task, ...updates }\<close>\<close>

definition spread_task :: "Task \<Rightarrow> TaskUpdates \<Rightarrow> Task" where
  "spread_task t u = \<lparr>
     task_id = spread (task_id t) (u_id u),
     projectId = spread (projectId t) (u_projectId u),
     title = spread (title t) (u_title u),
     description = spread (description t) (u_description u),
     status = spread (status t) (u_status u),
     column = spread (column t) (u_column u),
     assignee = spread (assignee t) (u_assignee u),
     createdBy = spread (createdBy t) (u_createdBy u),
     priority = spread (priority t) (u_priority u),
     tags = spread (tags t) (u_tags u),
     dependencies = spread (dependencies t) (u_dependencies u),
     subtasks = spread (subtasks t) (u_subtasks u),
     comments = spread (comments t) (u_comments u),
     nextTask = spread (nextTask t) (u_nextTask u),
     parentTaskId = spread (parentTaskId t) (u_parentTaskId u),
     deadline = spread (deadline t) (u_deadline u),
     inputPath = spread (inputPath t) (u_inputPath u),
     outputPath = spread (outputPath t) (u_outputPath u),
     startedAt = spread (startedAt t) (u_startedAt u),
     completedAt = spread (completedAt t) (u_completedAt u),
     failedAt = spread (failedAt t) (u_failedAt u),
     retryCount = spread (retryCount t) (u_retryCount u),
     maxRetries = spread (maxRetries t) (u_maxRetries u),
     requiresReview = spread (requiresReview t) (u_requiresReview u),
     durationMs = spread (durationMs t) (u_durationMs u),
     createdAt = spread (createdAt t) (u_createdAt u),
     updatedAt = spread (updatedAt t) (u_updatedAt u) \<rparr>"

section \<open>The world: one collection file, the clock, the random source\<close>

text \<open>
  The text of a collection file either parses to a list of entities or it does not.
  A file that does not exist is \<^term>\<open>None\<close>.
\<close>

datatype 'a file_text = Garbage | Json "'a list"

type_synonym 'a disk_file = "'a file_text option"

text \<open>\<^verbatim>\<open>JSON.parse\<close> throws on text that is not JSON: \<^term>\<open>None\<close>.\<close>

fun JSON_parse :: "'a file_text \<Rightarrow> 'a list option" where
  "JSON_parse Garbage = None"
| "JSON_parse (Json xs) = Some xs"

text \<open>
  \<^verbatim>\<open>clock\<close> lists the successive readings of \<^verbatim>\<open>new Date()\<close> and \<^verbatim>\<open>ticks\<close> counts
  the readings taken so far; \<^verbatim>\<open>entropy\<close> and \<^verbatim>\<open>draws\<close> do the same for
  \<^verbatim>\<open>randomBytes(8).toString("hex")\<close>. Only \<^verbatim>\<open>tasks.json\<close> is modelled; the
  backup directory is written but never read by the store, and is left out, apart
  from the clock reading that names the backup.
\<close>

record World =
  tasks_json :: "Task disk_file"
  clock :: "nat \<Rightarrow> int"
  ticks :: nat
  entropy :: "nat \<Rightarrow> string"
  draws :: nat

text \<open>src/utils.ts\<close>

definition now :: "World \<Rightarrow> int \<times> World" where
  "now w = (clock w (ticks w), w\<lparr>ticks := Suc (ticks w)\<rparr>)"

definition generateId :: "string \<Rightarrow> World \<Rightarrow> string \<times> World" where
  "generateId prefix w =
     (prefix @ ''_'' @ entropy w (draws w), w\<lparr>draws := Suc (draws w)\<rparr>)"

section \<open>The store (src/store.ts)\<close>

text \<open>
  \<^verbatim>\<open>readJSON\<close>: a missing file is created holding the fallback; a parse error is
  caught and the fallback returned, the file left as it is.
\<close>

definition readJSON :: "'a disk_file \<Rightarrow> 'a list \<Rightarrow> 'a list \<times> 'a disk_file" where
  "readJSON f fallback =
     (case f of
        None \<Rightarrow> (fallback, Some (Json fallback))
      | Some txt \<Rightarrow>
          (case JSON_parse txt of
             Some xs \<Rightarrow> (xs, f)
           | None \<Rightarrow> (fallback, f)))"

definition read_tasks :: "World \<Rightarrow> Task list \<times> World" where
  "read_tasks w = (let (ts, f) = readJSON (tasks_json w) [] in (ts, w\<lparr>tasks_json := f\<rparr>))"

text \<open>
  \<^verbatim>\<open>backupBeforeWrite\<close> copies an existing file under a name made from the clock;
  \<^verbatim>\<open>writeJSON\<close> then replaces the file (temporary file, rename).
\<close>

definition backupBeforeWrite :: "World \<Rightarrow> World" where
  "backupBeforeWrite w = (case tasks_json w of None \<Rightarrow> w | Some _ \<Rightarrow> snd (now w))"

definition write_tasks :: "Task list \<Rightarrow> World \<Rightarrow> World" where
  "write_tasks ts w = (backupBeforeWrite w)\<lparr>tasks_json := Some (Json ts)\<rparr>"

text \<open>
  \<^verbatim>\<open>withLock\<close>: read, apply the callback, write. The callback reads the clock and
  leaves its result in a variable of the caller, so here it takes the world and
  returns that result beside the new list. The mutex admits one holder at a time;
  the model runs one call at a time.
\<close>

definition withLock ::
  "(Task list \<Rightarrow> World \<Rightarrow> ('r \<times> Task list) \<times> World) \<Rightarrow> World \<Rightarrow> 'r \<times> World" where
  "withLock fn w =
     (let (ts, w1) = read_tasks w;
          ((r, result), w2) = fn ts w1
      in (r, write_tasks result w2))"

text \<open>\<^verbatim>\<open>Array.prototype.findIndex\<close>, with \<^term>\<open>None\<close> for -1.\<close>

fun findIndex :: "('a \<Rightarrow> bool) \<Rightarrow> 'a list \<Rightarrow> nat option" where
  "findIndex P [] = None"
| "findIndex P (x # xs) =
     (if P x then Some 0 else map_option Suc (findIndex P xs))"

record TaskFilters =
  f_projectId :: "string option"
  f_assignee :: "string option"
  f_status :: "string option"
  f_tag :: "string option"

definition no_filters :: TaskFilters where
  "no_filters = \<lparr> f_projectId = None, f_assignee = None, f_status = None, f_tag = None \<rparr>"

text \<open>\<^verbatim>\<open>if (filters?.k) tasks = tasks.filter(p)\<close>: an empty string is falsy.\<close>

definition filter_if :: "string option \<Rightarrow> (string \<Rightarrow> 'a \<Rightarrow> bool) \<Rightarrow> 'a list \<Rightarrow> 'a list" where
  "filter_if k p xs =
     (case k of None \<Rightarrow> xs | Some v \<Rightarrow> if v = [] then xs else filter (p v) xs)"

definition getTasks :: "World \<Rightarrow> TaskFilters \<Rightarrow> Task list \<times> World" where
  "getTasks w filters =
     (let (ts, w1) = read_tasks w;
          ts = filter_if (f_projectId filters) (\<lambda>v t. projectId t = v) ts;
          ts = filter_if (f_assignee filters) (\<lambda>v t. assignee t = v) ts;
          ts = filter_if (f_status filters)
                 (\<lambda>v t. column_name (status t) = v \<or> column_name (column t) = v) ts;
          ts = filter_if (f_tag filters) (\<lambda>v t. v \<in> set (tags t)) ts
      in (ts, w1))"

definition getTask :: "World \<Rightarrow> string \<Rightarrow> Task option \<times> World" where
  "getTask w i =
     (let (ts, w1) = read_tasks w in (find (\<lambda>t. task_id t = i) ts, w1))"

definition createTask :: "Task \<Rightarrow> World \<Rightarrow> Task \<times> World" where
  "createTask task0 w =
     (let task1 = task0\<lparr>status := column task0\<rparr>
      in withLock (\<lambda>ts w'. ((task1, ts @ [task1]), w')) w)"

definition updateTask :: "string \<Rightarrow> TaskUpdates \<Rightarrow> World \<Rightarrow> Task option \<times> World" where
  "updateTask i updates w =
     withLock (\<lambda>ts w'.
       case findIndex (\<lambda>t. task_id t = i) ts of
         None \<Rightarrow> ((None, ts), w')
       | Some idx \<Rightarrow>
           let (d, w1) = now w';
               updated = (spread_task (ts ! idx) updates)\<lparr>updatedAt := d\<rparr>;
               updated =
                 (case u_column updates of
                    Some c \<Rightarrow> updated\<lparr>status := c\<rparr>
                  | None \<Rightarrow>
                      (case u_status updates of
                         Some s \<Rightarrow> updated\<lparr>column := s, status := s\<rparr>
                       | None \<Rightarrow> updated))
           in ((Some updated, ts[idx := updated]), w1)) w"

definition deleteTask :: "string \<Rightarrow> World \<Rightarrow> bool \<times> World" where
  "deleteTask i w =
     withLock (\<lambda>ts w'.
       case findIndex (\<lambda>t. task_id t = i) ts of
         None \<Rightarrow> ((False, ts), w')
       | Some idx \<Rightarrow> ((True, take idx ts @ drop (Suc idx) ts), w')) w"

definition addComment :: "string \<Rightarrow> string \<Rightarrow> string \<Rightarrow> World \<Rightarrow> Task option \<times> World" where
  "addComment taskId a txt w =
     withLock (\<lambda>ts w'.
       case findIndex (\<lambda>t. task_id t = taskId) ts of
         None \<Rightarrow> ((None, ts), w')
       | Some idx \<Rightarrow>
           let (d1, w1) = now w';
               t1 = (ts ! idx)\<lparr>comments :=
                      comments (ts ! idx) @ [\<lparr> author = a, comment_text = txt, at = d1 \<rparr>]\<rparr>;
               (d2, w2) = now w1;
               t2 = t1\<lparr>updatedAt := d2\<rparr>
           in ((Some t2, ts[idx := t2]), w2)) w"

section \<open>The lifecycle engine (src/services.ts)\<close>

text \<open>
  \<^verbatim>\<open>MoveResult\<close> and the error object \<^verbatim>\<open>{ error, requiresReview? }\<close>. A call returns
  \<^term>\<open>Inl\<close> of the second or \<^term>\<open>Inr\<close> of the first.
\<close>

record MoveResult =
  task :: Task
  retried :: bool
  chainedTask :: "Task option"

record MoveFailure =
  error :: string
  requiresReview_flag :: "bool option"

definition failure :: "string \<Rightarrow> MoveFailure" where
  "failure msg = \<lparr> error = msg, requiresReview_flag = None \<rparr>"

definition VALID_COLUMNS :: "TaskColumn list" where
  "VALID_COLUMNS = [Backlog, Todo, Doing, Review, Done, Failed]"

text \<open>
  The column arrives as a string; \<^verbatim>\<open>VALID_COLUMNS.includes(column)\<close> decides
  whether it is one of the six literals, and which.
\<close>

definition as_column :: "string \<Rightarrow> TaskColumn option" where
  "as_column s = find (\<lambda>c. column_name c = s) VALID_COLUMNS"

text \<open>\<^verbatim>\<open>Array.prototype.join\<close>\<close>

fun join :: "string \<Rightarrow> string list \<Rightarrow> string" where
  "join sep [] = []"
| "join sep [x] = x"
| "join sep (x # y # ys) = x @ sep @ join sep (y # ys)"

text \<open>A number inside a template literal: its decimal digits.\<close>

fun show_nat :: "nat \<Rightarrow> string" where
  "show_nat n =
     (if n < 10 then [''0123456789'' ! n]
      else show_nat (n div 10) @ [''0123456789'' ! (n mod 10)])"

declare show_nat.simps [simp del]

definition show_int :: "int \<Rightarrow> string" where
  "show_int i = (if i < 0 then ''-'' @ show_nat (nat (- i)) else show_nat (nat i))"

record Blocker =
  b_id :: string
  b_title :: string
  b_column :: TaskColumn

text \<open>The loop over \<^verbatim>\<open>current.dependencies\<close> (lines 24 to 29).\<close>

fun collect_blockers :: "string list \<Rightarrow> World \<Rightarrow> Blocker list \<Rightarrow> Blocker list \<times> World" where
  "collect_blockers [] w blockers = (blockers, w)"
| "collect_blockers (depId # rest) w blockers =
     (let (dep, w1) = getTask w depId
      in collect_blockers rest w1
           (case dep of
              None \<Rightarrow> blockers
            | Some d \<Rightarrow>
                if column d \<noteq> Done
                then blockers @ [\<lparr> b_id = task_id d, b_title = title d, b_column = column d \<rparr>]
                else blockers))"

definition blocked_message :: "Blocker list \<Rightarrow> string" where
  \<open>blocked_message blockers =
     ''Blocked by unresolved dependencies: '' @
     join '', '' (map (\<lambda>b. ''"'' @ b_title b @ ''" ('' @ b_id b @ '', status: '' @
                          column_name (b_column b) @ '')'') blockers)\<close>

text \<open>Lines 46 to 64: the update payload with the metrics.\<close>

definition move_updates :: "TaskColumn \<Rightarrow> Task \<Rightarrow> World \<Rightarrow> TaskUpdates \<times> World" where
  "move_updates col current w =
     (let updates = no_updates\<lparr>u_column := Some col\<rparr>;
          (updates, w1) =
            (if col = Doing \<and> startedAt current = None
             then (let (d, w') = now w in (updates\<lparr>u_startedAt := Some (Some d)\<rparr>, w'))
             else (updates, w));
          (updates, w2) =
            (if col = Done
             then (let (d, w') = now w1;
                       updates = updates\<lparr>u_completedAt := Some (Some d)\<rparr>
                   in (case startedAt current of
                         Some s \<Rightarrow> updates\<lparr>u_durationMs := Some (Some (d - s))\<rparr>
                       | None \<Rightarrow> updates, w'))
             else (updates, w1));
          (updates, w3) =
            (if col = Failed
             then (let (d, w') = now w2 in (updates\<lparr>u_failedAt := Some (Some d)\<rparr>, w'))
             else (updates, w2))
      in (updates, w3))"

text \<open>
  Lines 69 to 92: the automatic retry. \<^verbatim>\<open>updated.retryCount || 0\<close> is 0 for a
  missing count and \<^verbatim>\<open>updated.maxRetries ?? 2\<close> is 2 for a missing bound.
\<close>

definition retry_message :: "int \<Rightarrow> int \<Rightarrow> string" where
  "retry_message n m =
     ''Auto-retry '' @ show_int n @ ''/'' @ show_int m @
     '': task moved back to todo after failure.''"

definition exhausted_message :: "int \<Rightarrow> string" where
  "exhausted_message m =
     ''Max retries ('' @ show_int m @ '') exhausted. Task requires manual intervention.''"

definition auto_retry :: "TaskColumn \<Rightarrow> Task \<Rightarrow> World \<Rightarrow> bool \<times> World" where
  "auto_retry col updated w =
     (if col = Failed
      then (let rc = (case retryCount updated of None \<Rightarrow> 0 | Some n \<Rightarrow> n);
                mr = (case maxRetries updated of None \<Rightarrow> 2 | Some m \<Rightarrow> m)
            in if rc < mr
               then (let retryUpdates = no_updates\<lparr>u_column := Some Todo,
                                           u_retryCount := Some (Some (rc + 1)),
                                           u_failedAt := Some None\<rparr>;
                         (_, w1) = updateTask (task_id updated) retryUpdates w;
                         (_, w2) = addComment (task_id updated) ''system''
                                     (retry_message (rc + 1) mr) w1
                     in (True, w2))
               else (let (_, w1) = addComment (task_id updated) ''system''
                                     (exhausted_message mr) w
                     in (False, w1)))
      else (False, w))"

text \<open>Lines 95 to 105: a comment on every task that depends on the finished one.\<close>

definition resolved_message :: "Task \<Rightarrow> string" where
  \<open>resolved_message updated =
     ''Dependency resolved: "'' @ title updated @ ''" ('' @ task_id updated @
     '') is now done.''\<close>

fun notify_each :: "Task list \<Rightarrow> string \<Rightarrow> Task \<Rightarrow> World \<Rightarrow> World" where
  "notify_each [] taskId updated w = w"
| "notify_each (t # rest) taskId updated w =
     notify_each rest taskId updated
       (if taskId \<in> set (dependencies t)
        then snd (addComment (task_id t) ''system'' (resolved_message updated) w)
        else w)"

definition notify_dependents :: "TaskColumn \<Rightarrow> string \<Rightarrow> Task \<Rightarrow> World \<Rightarrow> World" where
  "notify_dependents col taskId updated w =
     (if col = Done
      then (let (allTasks, w1) = getTasks w no_filters
            in notify_each allTasks taskId updated w1)
      else w)"

text \<open>Lines 107 to 134: the chained task, and the strings it carries.\<close>

definition chained_description :: "Task \<Rightarrow> string" where
  "chained_description updated =
     ''Chained from: '' @ title updated @ '' ('' @ task_id updated @ '')''"

definition created_message :: "Task \<Rightarrow> string" where
  \<open>created_message updated =
     ''Auto-created from completed task "'' @ title updated @ ''" ('' @
     task_id updated @ '')''\<close>

text \<open>
  The object literal of lines 111 to 132, as a function of the template, the finished
  task, the generated id and the three clock readings.
\<close>

definition chained_from :: "NextTask \<Rightarrow> Task \<Rightarrow> string \<Rightarrow> int \<Rightarrow> int \<Rightarrow> int \<Rightarrow> Task" where
  "chained_from nt updated new_id d1 d2 d3 = \<lparr>
     task_id = new_id,
     projectId = projectId updated,
     title = nt_title nt,
     description =
       (case nt_description nt of
          None \<Rightarrow> chained_description updated
        | Some d \<Rightarrow> if d = [] then chained_description updated else d),
     status = Todo,
     column = Todo,
     assignee = nt_assignee nt,
     createdBy = assignee updated,
     priority = (case nt_priority nt of None \<Rightarrow> priority updated | Some p \<Rightarrow> p),
     tags = (case nt_tags nt of None \<Rightarrow> tags updated | Some ts \<Rightarrow> ts),
     dependencies = [],
     subtasks = [],
     comments = [\<lparr> author = ''system'', comment_text = created_message updated, at = d1 \<rparr>],
     nextTask = None,
     parentTaskId = Some (task_id updated),
     deadline = None,
     inputPath = None,
     outputPath = None,
     startedAt = None,
     completedAt = None,
     failedAt = None,
     retryCount = None,
     maxRetries = None,
     requiresReview = None,
     durationMs = None,
     createdAt = d2,
     updatedAt = d3 \<rparr>"

definition auto_chain :: "TaskColumn \<Rightarrow> Task \<Rightarrow> World \<Rightarrow> Task option \<times> World" where
  "auto_chain col updated w =
     (case (if col = Done then nextTask updated else None) of
        None \<Rightarrow> (None, w)
      | Some nt \<Rightarrow>
          (let (new_id, w1) = generateId ''task'' w;
               (d1, w2) = now w1;
               (d2, w3) = now w2;
               (d3, w4) = now w3;
               (spawned, w5) = createTask (chained_from nt updated new_id d1 d2 d3) w4
           in (Some spawned, w5)))"

text \<open>Lines 45 to 136: what a move does once both gates are passed.\<close>

definition commit_move :: "string \<Rightarrow> TaskColumn \<Rightarrow> Task \<Rightarrow> World \<Rightarrow> (MoveFailure + MoveResult) \<times> World" where
  "commit_move taskId col current w =
     (let (updates, w1) = move_updates col current w;
          (upd, w2) = updateTask taskId updates w1
      in case upd of
           None \<Rightarrow> (Inl (failure ''Task not found''), w2)
         | Some updated \<Rightarrow>
             (let (r, w3) = auto_retry col updated w2;
                  w4 = notify_dependents col taskId updated w3;
                  (spawned, w5) = auto_chain col updated w4
              in (Inr \<lparr> task = updated, retried = r, chainedTask = spawned \<rparr>, w5)))"

definition review_message :: string where
  "review_message =
     ''Quality gate: this task requires review before done. Move to 'review' first.''"

text \<open>Lines 14 to 43: validation, lookup, the dependency gate, the quality gate.\<close>

definition moveTask :: "World \<Rightarrow> string \<Rightarrow> string \<Rightarrow> (MoveFailure + MoveResult) \<times> World" where
  "moveTask w taskId column_arg =
     (if column_arg = [] then (Inl (failure ''column is required''), w)
      else case as_column column_arg of
        None \<Rightarrow>
          (Inl (failure (''column must be one of: '' @
                         join '', '' (map column_name VALID_COLUMNS))), w)
      | Some col \<Rightarrow>
          (let (cur, w1) = getTask w taskId
           in case cur of
                None \<Rightarrow> (Inl (failure ''Task not found''), w1)
              | Some current \<Rightarrow>
                  (let (blockers, w2) =
                         (if col = Doing \<and> dependencies current \<noteq> []
                          then collect_blockers (dependencies current) w1 []
                          else ([], w1))
                   in if blockers \<noteq> []
                      then (Inl (failure (blocked_message blockers)), w2)
                      else if col = Done \<and> requiresReview current = Some True
                              \<and> column current \<noteq> Review
                      then (Inl \<lparr> error = review_message,
                                  requiresReview_flag = Some True \<rparr>, w2)
                      else commit_move taskId col current w2)))"

section \<open>The dependency cycle check (src/routes.ts, hasCycle)\<close>

text \<open>
  What the store holds: the list a read returns. \<^verbatim>\<open>getTask\<close> answers with the first
  task that carries the id.
\<close>

definition stored :: "World \<Rightarrow> Task list" where
  "stored w = fst (read_tasks w)"

definition lookup :: "Task list \<Rightarrow> string \<Rightarrow> Task option" where
  "lookup ts i = find (\<lambda>t. task_id t = i) ts"

definition all_deps :: "Task list \<Rightarrow> string set" where
  "all_deps ts = (\<Union>t \<in> set ts. set (dependencies t))"

text \<open>
  The \<^verbatim>\<open>while (stack.length > 0)\<close> loop of \<^verbatim>\<open>hasCycle\<close>: \<^verbatim>\<open>pop\<close> takes the last
  element, \<^verbatim>\<open>push\<close> appends. Every iteration either marks an id that was not yet
  visited, out of the finitely many ids on the stack or in some dependency list, or
  shortens the stack; so the loop ends.
\<close>

function hasCycle_loop :: "World \<Rightarrow> string \<Rightarrow> string set \<Rightarrow> string list \<Rightarrow> bool \<times> World" where
  "hasCycle_loop w taskId visited stack =
     (if stack = [] then (False, w)
      else let current = last stack; stack1 = butlast stack
           in if current = taskId then (True, w)
              else if current \<in> visited then hasCycle_loop w taskId visited stack1
              else hasCycle_loop (snd (getTask w current)) taskId (insert current visited)
                     (case fst (getTask w current) of
                        None \<Rightarrow> stack1
                      | Some t \<Rightarrow> stack1 @ dependencies t))"
  by pat_completeness auto

termination
proof (relation "measures
    [\<lambda>(w, taskId, visited, stack). card ((set stack \<union> all_deps (stored w)) - visited),
     \<lambda>(w, taskId, visited, stack). length stack]", goal_cases)
  case 1
  show ?case by simp
next
  case (2 w taskId visited stack current stack1)
  then have "set stack = insert current (set stack1)"
    by (metis append_butlast_last_id list.simps(15) set_append Un_insert_right
          sup_bot.right_neutral list.set(1))
  with 2 have "(set stack1 \<union> all_deps (stored w)) - visited
      = (set stack \<union> all_deps (stored w)) - visited"
    by auto
  with 2 show ?case by simp
next
  case (3 w taskId visited stack current stack1)
  let ?U = "set stack \<union> all_deps (stored w)"
  let ?w' = "snd (getTask w current)"
  let ?stack' = "case fst (getTask w current) of
                   None \<Rightarrow> stack1 | Some t \<Rightarrow> stack1 @ dependencies t"
  have same: "stored ?w' = stored w"
    by (simp add: stored_def getTask_def read_tasks_def readJSON_def Let_def case_prod_unfold
          split: option.splits file_text.splits)
  have found: "fst (getTask w current) = find (\<lambda>t. task_id t = current) (stored w)"
    by (simp add: getTask_def stored_def case_prod_unfold Let_def)
  have sub1: "set stack1 \<subseteq> set stack"
    using 3 by (auto dest: in_set_butlastD)
  have fin: "finite (?U - visited)"
    by (simp add: all_deps_def)
  have "set ?stack' \<subseteq> ?U"
    using sub1 by (auto simp: found all_deps_def find_Some_iff split: option.splits
                        intro: nth_mem)
  then have A: "(set ?stack' \<union> all_deps (stored ?w')) - insert current visited
        \<subseteq> ?U - visited - {current}"
    unfolding same by auto
  have cur: "current \<in> ?U - visited"
    using 3 by auto
  have "card ((set ?stack' \<union> all_deps (stored ?w')) - insert current visited)
        \<le> card (?U - visited - {current})"
    using A fin by (intro card_mono) auto
  also have "\<dots> < card (?U - visited)"
    using cur fin by (intro card_Diff1_less) auto
  finally show ?case by simp
qed

declare hasCycle_loop.simps [simp del]

text \<open>\<^verbatim>\<open>const visited = new Set(); const stack = [...dependencies];\<close>\<close>

definition hasCycle :: "World \<Rightarrow> string \<Rightarrow> string list \<Rightarrow> bool \<times> World" where
  "hasCycle w taskId deps = hasCycle_loop w taskId {} deps"

text \<open>
  The graph the check walks: an edge from an id to each dependency of the task that
  \<^verbatim>\<open>getTask\<close> finds under that id. An id with no task has no edge.
\<close>

definition dep_edges :: "Task list \<Rightarrow> (string \<times> string) set" where
  "dep_edges ts = {(a, b). \<exists>t. lookup ts a = Some t \<and> b \<in> set (dependencies t)}"

section \<open>Series of calls\<close>

text \<open>The world after a series of \<^verbatim>\<open>moveTask\<close> calls on one task, one column each.\<close>

fun move_all :: "World \<Rightarrow> string \<Rightarrow> string list \<Rightarrow> World" where
  "move_all w i [] = w"
| "move_all w i (c # cs) = move_all (snd (moveTask w i c)) i cs"

text \<open>A call of the store that writes a task, and the world after a series of them.\<close>

datatype store_call = Create Task | Update string TaskUpdates

fun apply_call :: "store_call \<Rightarrow> World \<Rightarrow> World" where
  "apply_call (Create t) w = snd (createTask t w)"
| "apply_call (Update i u) w = snd (updateTask i u w)"

fun run_calls :: "store_call list \<Rightarrow> World \<Rightarrow> World" where
  "run_calls [] w = w"
| "run_calls (c # cs) w = run_calls cs (apply_call c w)"

section \<open>Boards for the examples\<close>

text \<open>
  \<^verbatim>\<open>makeTask\<close> follows the helper of the same name in tests/store.test.ts: a task with
  the defaults of the tests and the given id, column and dependencies. A board is a
  world whose collection file holds the given tasks, whose clock starts at 1000 and
  advances by one at every reading. The boards below are the inputs of the worked
  instances that follow the theorems.
\<close>

definition makeTask :: "string \<Rightarrow> TaskColumn \<Rightarrow> string list \<Rightarrow> Task" where
  "makeTask i col deps = \<lparr>
     task_id = i, projectId = ''proj-1'', title = ''Test Task'',
     description = ''A test task'', status = col, column = col, assignee = '''',
     createdBy = ''tester'', priority = Medium, tags = [], dependencies = deps,
     subtasks = [], comments = [], nextTask = None, parentTaskId = None, deadline = None,
     inputPath = None, outputPath = None, startedAt = None, completedAt = None,
     failedAt = None, retryCount = None, maxRetries = None, requiresReview = None,
     durationMs = None, createdAt = 0, updatedAt = 0 \<rparr>"

definition board :: "Task list \<Rightarrow> World" where
  "board ts = \<lparr> tasks_json = Some (Json ts), clock = (\<lambda>n. 1000 + int n), ticks = 0,
                entropy = (\<lambda>_. ''0123456789abcdef''), draws = 0 \<rparr>"

definition cyclic_board :: World where
  "cyclic_board = board [makeTask ''A'' Backlog [], makeTask ''B'' Backlog [''C''],
                         makeTask ''C'' Backlog [''A'']]"

definition corrupt_board :: World where
  "corrupt_board = (board [])\<lparr>tasks_json := Some Garbage\<rparr>"

definition ghost_board :: World where
  "ghost_board = board [makeTask ''a'' Todo [''ghost'']]"

definition blocked_board :: World where
  "blocked_board = board [makeTask ''a'' Todo [''b'', ''c'', ''d''], makeTask ''b'' Done [],
                          (makeTask ''c'' Backlog [])\<lparr>title := ''Design''\<rparr>,
                          (makeTask ''d'' Review [])\<lparr>title := ''Build''\<rparr>]"

definition ready_board :: World where
  "ready_board = board [makeTask ''a'' Todo [''b'', ''c'', ''d''], makeTask ''b'' Done [],
                        (makeTask ''c'' Done [])\<lparr>title := ''Design''\<rparr>,
                        (makeTask ''d'' Done [])\<lparr>title := ''Build''\<rparr>]"

definition review_board :: World where
  "review_board = board [(makeTask ''r'' Doing [])\<lparr>requiresReview := Some True\<rparr>]"

definition retry_board :: World where
  "retry_board = board [(makeTask ''f'' Doing [])\<lparr>maxRetries := Some 2, retryCount := Some 0\<rparr>]"

definition doomed_board :: World where
  "doomed_board = board [(makeTask ''t'' Doing [])\<lparr>maxRetries := Some 2, retryCount := Some 0\<rparr>]"



definition child_template :: "string option \<Rightarrow> NextTask" where
  "child_template d = \<lparr> nt_title = ''Child'', nt_description = d, nt_assignee = ''b'',
                        nt_priority = None, nt_tags = None \<rparr>"

definition parent_task :: "string option \<Rightarrow> Task" where
  "parent_task d = (makeTask ''p'' Doing [])\<lparr>nextTask := Some (child_template d)\<rparr>"

definition chain_board :: World where
  "chain_board = board [parent_task None]"

definition blank_description_board :: World where
  "blank_description_board = board [parent_task (Some '''')]"

definition fresh_world :: World where
  "fresh_world = (board [])\<lparr>tasks_json := None\<rparr>"

definition mirror_calls :: "store_call list" where
  "mirror_calls =
     [Create ((makeTask ''x'' Todo [])\<lparr>status := Backlog\<rparr>),
      Update ''x'' (no_updates\<lparr>u_status := Some Done\<rparr>),
      Update ''x'' (no_updates\<lparr>u_column := Some Review, u_status := Some Failed\<rparr>),
      Update ''x'' (no_updates\<lparr>u_title := Some ''renamed''\<rparr>)]"

section \<open>Closed forms used in the proofs\<close>

text \<open>
  The functions below name the values the store and the engine compute, so that the
  lemmas can say what a call returns. Each is proved equal to what the source
  function does before it is used.
\<close>

text \<open>The list after the callback of an update: the first task with the id replaced.\<close>

definition modify :: "Task list \<Rightarrow> string \<Rightarrow> (Task \<Rightarrow> Task) \<Rightarrow> Task list" where
  "modify ts i f =
     (case findIndex (\<lambda>t. task_id t = i) ts of
        None \<Rightarrow> ts
      | Some idx \<Rightarrow> ts[idx := f (ts ! idx)])"

text \<open>The task \<^verbatim>\<open>updateTask\<close> writes, from the stored one and the clock reading.\<close>

definition merged :: "TaskUpdates \<Rightarrow> int \<Rightarrow> Task \<Rightarrow> Task" where
  "merged updates d t =
     (let updated = (spread_task t updates)\<lparr>updatedAt := d\<rparr>
      in case u_column updates of
           Some c \<Rightarrow> updated\<lparr>status := c\<rparr>
         | None \<Rightarrow>
             (case u_status updates of
                Some s \<Rightarrow> updated\<lparr>column := s, status := s\<rparr>
              | None \<Rightarrow> updated))"

text \<open>The task \<^verbatim>\<open>addComment\<close> writes, from the stored one and two clock readings.\<close>

definition commented :: "string \<Rightarrow> string \<Rightarrow> int \<Rightarrow> int \<Rightarrow> Task \<Rightarrow> Task" where
  "commented a txt d1 d2 t =
     t\<lparr>comments := comments t @ [\<lparr> author = a, comment_text = txt, at = d1 \<rparr>],
       updatedAt := d2\<rparr>"

text \<open>The entry pushed on \<^verbatim>\<open>blockers\<close> for a dependency, and the list after the loop.\<close>

definition blocker_of :: "Task \<Rightarrow> Blocker" where
  "blocker_of d = \<lparr> b_id = task_id d, b_title = title d, b_column = column d \<rparr>"

definition blocking :: "Task list \<Rightarrow> string list \<Rightarrow> Blocker list" where
  "blocking ts ds =
     concat (map (\<lambda>d. case lookup ts d of
                         None \<Rightarrow> []
                       | Some dep \<Rightarrow> if column dep \<noteq> Done then [blocker_of dep] else []) ds)"

text \<open>
  The payload of a move, the task \<^verbatim>\<open>updateTask\<close> returns for it (\<^verbatim>\<open>updated\<close> in the
  source) and the world after that write.
\<close>

definition payload :: "TaskColumn \<Rightarrow> Task \<Rightarrow> World \<Rightarrow> TaskUpdates" where
  "payload col t w = fst (move_updates col t w)"

definition moved :: "TaskColumn \<Rightarrow> Task \<Rightarrow> World \<Rightarrow> Task" where
  "moved col t w =
     merged (payload col t w) (clock w (ticks (snd (move_updates col t w)))) t"

definition after_update :: "TaskColumn \<Rightarrow> Task \<Rightarrow> Task list \<Rightarrow> World \<Rightarrow> World" where
  "after_update col t ts w =
     w\<lparr>tasks_json := Some (Json (modify ts (task_id t) (\<lambda>_. moved col t w))),
       ticks := (if (col = Doing \<and> startedAt t = None) \<or> col = Done \<or> col = Failed then 3 else 2)
                + ticks w\<rparr>"

text \<open>Two tasks that differ at most in their comments and in \<^verbatim>\<open>updatedAt\<close>.\<close>

definition same_core :: "Task \<Rightarrow> Task \<Rightarrow> bool" where
  "same_core t t' \<longleftrightarrow> t' = t\<lparr>comments := comments t', updatedAt := updatedAt t'\<rparr>"

text \<open>
  What every successful call leaves behind: the same clock and random source, read
  further along, and a collection file that parses.
\<close>

definition world_ok :: "World \<Rightarrow> World \<Rightarrow> bool" where
  "world_ok w w' \<longleftrightarrow>
     clock w' = clock w \<and> entropy w' = entropy w \<and> ticks w < ticks w' \<and> draws w \<le> draws w'
     \<and> tasks_json w' = Some (Json (stored w'))"

text \<open>
  \<^verbatim>\<open>updated.retryCount || 0\<close>, \<^verbatim>\<open>updated.maxRetries ?? 2\<close>, \<^verbatim>\<open>retryUpdates\<close>, and the
  stored task after a failure that is retried and after one that is not.
\<close>

definition retry_count :: "Task \<Rightarrow> int" where
  "retry_count t = (case retryCount t of None \<Rightarrow> 0 | Some n \<Rightarrow> n)"

definition max_retries :: "Task \<Rightarrow> int" where
  "max_retries t = (case maxRetries t of None \<Rightarrow> 2 | Some m \<Rightarrow> m)"

definition retryUpdates :: "int \<Rightarrow> TaskUpdates" where
  "retryUpdates rc = no_updates\<lparr>u_column := Some Todo, u_retryCount := Some (Some (rc + 1)),
                                u_failedAt := Some None\<rparr>"

definition retried_task :: "Task \<Rightarrow> World \<Rightarrow> Task" where
  "retried_task t w =
     commented ''system'' (retry_message (retry_count t + 1) (max_retries t))
       (clock w (ticks w + 5)) (clock w (ticks w + 6))
       (merged (retryUpdates (retry_count t)) (clock w (ticks w + 3)) (moved Failed t w))"

definition exhausted_task :: "Task \<Rightarrow> World \<Rightarrow> Task" where
  "exhausted_task t w =
     commented ''system'' (exhausted_message (max_retries t))
       (clock w (ticks w + 3)) (clock w (ticks w + 4)) (moved Failed t w)"

section \<open>Lemmas about the store\<close>

lemma findIndex_None: "findIndex P xs = None \<longleftrightarrow> find P xs = None"
  by (induction xs) auto

lemma findIndex_Some:
  "findIndex P xs = Some n \<Longrightarrow> n < length xs \<and> find P xs = Some (xs ! n)"
  by (induction xs arbitrary: n) (auto split: if_splits)

lemma find_list_update_hit:
  "findIndex P xs = Some n \<Longrightarrow> P y \<Longrightarrow> find P (xs[n := y]) = Some y"
  by (induction xs arbitrary: n) (auto split: if_splits)

lemma find_list_update_miss:
  "n < length xs \<Longrightarrow> \<not> Q (xs ! n) \<Longrightarrow> \<not> Q y \<Longrightarrow> find Q (xs[n := y]) = find Q xs"
  by (induction xs arbitrary: n) (auto simp: nth_Cons split: nat.splits)

lemma lookup_task_id: "lookup ts i = Some t \<Longrightarrow> task_id t = i"
  by (auto simp: lookup_def find_Some_iff)

lemma lookup_in_set: "lookup ts i = Some t \<Longrightarrow> t \<in> set ts"
  by (auto simp: lookup_def find_Some_iff)

lemma lookup_modify:
  assumes "\<And>t. task_id (f t) = task_id t"
  shows "lookup (modify ts i f) j = (if j = i then map_option f (lookup ts i) else lookup ts j)"
proof (cases "findIndex (\<lambda>t. task_id t = i) ts")
  case None
  moreover from None have "find (\<lambda>t. task_id t = i) ts = None" by (simp add: findIndex_None)
  ultimately show ?thesis by (simp add: modify_def lookup_def)
next
  case (Some n)
  then have n: "n < length ts" "find (\<lambda>t. task_id t = i) ts = Some (ts ! n)"
    by (simp_all add: findIndex_Some)
  then have idn: "task_id (ts ! n) = i" by (auto simp: find_Some_iff)
  show ?thesis
  proof (cases "j = i")
    case True
    then show ?thesis using Some n idn assms
      by (simp add: modify_def lookup_def find_list_update_hit)
  next
    case False
    then show ?thesis using Some n idn assms
      by (simp add: modify_def lookup_def find_list_update_miss)
  qed
qed

lemma length_modify [simp]: "length (modify ts i f) = length ts"
  by (simp add: modify_def split: option.splits)

lemma ids_modify:
  assumes "\<And>t. task_id (f t) = task_id t"
  shows "map task_id (modify ts i f) = map task_id ts"
  by (auto simp: modify_def assms map_update list_update_same_conv dest: findIndex_Some split: option.splits)

lemma modify_absent: "lookup ts i = None \<Longrightarrow> modify ts i f = ts"
  by (simp add: modify_def lookup_def findIndex_None [symmetric])

lemma read_tasks_Json: "tasks_json w = Some (Json ts) \<Longrightarrow> read_tasks w = (ts, w)"
  by (simp add: read_tasks_def readJSON_def)

lemma stored_Json: "tasks_json w = Some (Json ts) \<Longrightarrow> stored w = ts"
  by (simp add: stored_def read_tasks_Json)

lemma stored_cases:
  "stored w = (case tasks_json w of Some (Json ts) \<Rightarrow> ts | _ \<Rightarrow> [])"
  by (simp add: stored_def read_tasks_def readJSON_def split: option.splits file_text.splits)

lemma lookup_stored_Json:
  "lookup (stored w) i = Some t \<Longrightarrow> tasks_json w = Some (Json (stored w))"
  by (auto simp: stored_cases lookup_def split: option.splits file_text.splits)

lemma getTask_Json: "tasks_json w = Some (Json ts) \<Longrightarrow> getTask w i = (lookup ts i, w)"
  by (simp add: getTask_def read_tasks_Json lookup_def)

lemma getTasks_Json: "tasks_json w = Some (Json ts) \<Longrightarrow> getTasks w no_filters = (ts, w)"
  by (simp add: getTasks_def read_tasks_Json no_filters_def filter_if_def)

lemma write_tasks_Json:
  "tasks_json w = Some x \<Longrightarrow>
   write_tasks ts w = w\<lparr>tasks_json := Some (Json ts), ticks := Suc (ticks w)\<rparr>"
  by (simp add: write_tasks_def backupBeforeWrite_def now_def)

lemma updateTask_Json:
  assumes "tasks_json w = Some (Json ts)"
  shows "updateTask i u w =
     (map_option (merged u (clock w (ticks w))) (lookup ts i),
      w\<lparr>tasks_json := Some (Json (modify ts i (merged u (clock w (ticks w))))),
        ticks := (if lookup ts i = None then 1 else 2) + ticks w\<rparr>)"
proof (cases "findIndex (\<lambda>t. task_id t = i) ts")
  case None
  then show ?thesis using assms
    by (simp add: updateTask_def withLock_def read_tasks_Json write_tasks_Json modify_def
          lookup_def findIndex_None [symmetric])
next
  case (Some n)
  then have "find (\<lambda>t. task_id t = i) ts = Some (ts ! n)" by (simp add: findIndex_Some)
  then show ?thesis using assms Some
    by (simp add: updateTask_def withLock_def read_tasks_Json write_tasks_Json modify_def
          lookup_def now_def merged_def Let_def)
qed

lemma addComment_Json:
  assumes "tasks_json w = Some (Json ts)"
  shows "addComment i a txt w =
     (map_option (commented a txt (clock w (ticks w)) (clock w (Suc (ticks w)))) (lookup ts i),
      w\<lparr>tasks_json := Some (Json (modify ts i
            (commented a txt (clock w (ticks w)) (clock w (Suc (ticks w)))))),
        ticks := (if lookup ts i = None then 1 else 3) + ticks w\<rparr>)"
proof (cases "findIndex (\<lambda>t. task_id t = i) ts")
  case None
  then show ?thesis using assms
    by (simp add: addComment_def withLock_def read_tasks_Json write_tasks_Json modify_def
          lookup_def findIndex_None [symmetric])
next
  case (Some n)
  then have "find (\<lambda>t. task_id t = i) ts = Some (ts ! n)" by (simp add: findIndex_Some)
  then show ?thesis using assms Some
    by (simp add: addComment_def withLock_def read_tasks_Json write_tasks_Json modify_def
          lookup_def now_def commented_def Let_def)
qed

lemma createTask_Json:
  assumes "tasks_json w = Some (Json ts)"
  shows "createTask t w =
     (t\<lparr>status := column t\<rparr>,
      w\<lparr>tasks_json := Some (Json (ts @ [t\<lparr>status := column t\<rparr>])), ticks := Suc (ticks w)\<rparr>)"
  using assms by (simp add: createTask_def withLock_def read_tasks_Json write_tasks_Json Let_def)

lemma merged_sel:
  "task_id (merged u d t) = spread (task_id t) (u_id u)"
  "projectId (merged u d t) = spread (projectId t) (u_projectId u)"
  "title (merged u d t) = spread (title t) (u_title u)"
  "description (merged u d t) = spread (description t) (u_description u)"
  "assignee (merged u d t) = spread (assignee t) (u_assignee u)"
  "createdBy (merged u d t) = spread (createdBy t) (u_createdBy u)"
  "priority (merged u d t) = spread (priority t) (u_priority u)"
  "tags (merged u d t) = spread (tags t) (u_tags u)"
  "dependencies (merged u d t) = spread (dependencies t) (u_dependencies u)"
  "subtasks (merged u d t) = spread (subtasks t) (u_subtasks u)"
  "comments (merged u d t) = spread (comments t) (u_comments u)"
  "nextTask (merged u d t) = spread (nextTask t) (u_nextTask u)"
  "parentTaskId (merged u d t) = spread (parentTaskId t) (u_parentTaskId u)"
  "deadline (merged u d t) = spread (deadline t) (u_deadline u)"
  "inputPath (merged u d t) = spread (inputPath t) (u_inputPath u)"
  "outputPath (merged u d t) = spread (outputPath t) (u_outputPath u)"
  "startedAt (merged u d t) = spread (startedAt t) (u_startedAt u)"
  "completedAt (merged u d t) = spread (completedAt t) (u_completedAt u)"
  "failedAt (merged u d t) = spread (failedAt t) (u_failedAt u)"
  "retryCount (merged u d t) = spread (retryCount t) (u_retryCount u)"
  "maxRetries (merged u d t) = spread (maxRetries t) (u_maxRetries u)"
  "requiresReview (merged u d t) = spread (requiresReview t) (u_requiresReview u)"
  "durationMs (merged u d t) = spread (durationMs t) (u_durationMs u)"
  "createdAt (merged u d t) = spread (createdAt t) (u_createdAt u)"
  "updatedAt (merged u d t) = d"
  by (simp_all add: merged_def Let_def spread_task_def split: option.splits)

lemma merged_column:
  "column (merged u d t) =
     (case u_column u of Some c \<Rightarrow> c | None \<Rightarrow> (case u_status u of Some s \<Rightarrow> s | None \<Rightarrow> column t))"
  by (simp add: merged_def Let_def spread_task_def spread_def split: option.splits)

lemma merged_status:
  "status (merged u d t) =
     (case u_column u of Some c \<Rightarrow> c | None \<Rightarrow> (case u_status u of Some s \<Rightarrow> s | None \<Rightarrow> status t))"
  by (simp add: merged_def Let_def spread_task_def spread_def split: option.splits)

lemma no_updates_sel [simp]:
  "u_id no_updates = None" "u_projectId no_updates = None" "u_title no_updates = None"
  "u_description no_updates = None" "u_status no_updates = None" "u_column no_updates = None"
  "u_assignee no_updates = None" "u_createdBy no_updates = None" "u_priority no_updates = None"
  "u_tags no_updates = None" "u_dependencies no_updates = None" "u_subtasks no_updates = None"
  "u_comments no_updates = None" "u_nextTask no_updates = None" "u_parentTaskId no_updates = None"
  "u_deadline no_updates = None" "u_inputPath no_updates = None" "u_outputPath no_updates = None"
  "u_startedAt no_updates = None" "u_completedAt no_updates = None" "u_failedAt no_updates = None"
  "u_retryCount no_updates = None" "u_maxRetries no_updates = None"
  "u_requiresReview no_updates = None" "u_durationMs no_updates = None"
  "u_createdAt no_updates = None" "u_updatedAt no_updates = None"
  by (simp_all add: no_updates_def)

lemma spread_simps [simp]: "spread x None = x" "spread x (Some y) = y"
  by (simp_all add: spread_def)

lemma move_updates_form:
  "move_updates col t w =
     (payload col t w,
      if (col = Doing \<and> startedAt t = None) \<or> col = Done \<or> col = Failed
      then w\<lparr>ticks := Suc (ticks w)\<rparr> else w)"
  by (cases col) (simp_all add: payload_def move_updates_def now_def Let_def split: option.splits)

lemma payload_sel:
  "u_id (payload col t w) = None"
  "u_column (payload col t w) = Some col"
  "u_status (payload col t w) = None"
  "u_comments (payload col t w) = None"
  "u_dependencies (payload col t w) = None"
  "u_retryCount (payload col t w) = None"
  "u_maxRetries (payload col t w) = None"
  "u_requiresReview (payload col t w) = None"
  "u_nextTask (payload col t w) = None"
  "u_title (payload col t w) = None"
  "u_projectId (payload col t w) = None"
  "u_assignee (payload col t w) = None"
  "u_priority (payload col t w) = None"
  "u_tags (payload col t w) = None"
  "u_startedAt (payload col t w) =
     (if col = Doing \<and> startedAt t = None then Some (Some (clock w (ticks w))) else None)"
  "u_completedAt (payload col t w) = (if col = Done then Some (Some (clock w (ticks w))) else None)"
  "u_durationMs (payload col t w) =
     (if col = Done then (case startedAt t of Some s \<Rightarrow> Some (Some (clock w (ticks w) - s)) | None \<Rightarrow> None)
      else None)"
  "u_failedAt (payload col t w) = (if col = Failed then Some (Some (clock w (ticks w))) else None)"
  by (cases col; simp add: payload_def move_updates_def now_def Let_def split: option.splits)+

lemma as_column_simps [simp]:
  "as_column ''backlog'' = Some Backlog" "as_column ''todo'' = Some Todo"
  "as_column ''doing'' = Some Doing" "as_column ''review'' = Some Review"
  "as_column ''done'' = Some Done" "as_column ''failed'' = Some Failed"
  by (simp_all add: as_column_def VALID_COLUMNS_def)

lemma as_column_name [simp]: "as_column (column_name c) = Some c"
  by (cases c) simp_all

lemma column_name_nonempty [simp]: "column_name c \<noteq> []"
  by (cases c) simp_all

lemma collect_blockers_Json:
  "tasks_json w = Some (Json ts) \<Longrightarrow>
   collect_blockers ds w acc = (acc @ blocking ts ds, w)"
  by (induction ds arbitrary: acc)
     (simp_all add: blocking_def getTask_Json blocker_of_def split: option.splits)

lemma blocking_empty_iff:
  "blocking ts ds = [] \<longleftrightarrow>
     (\<forall>d\<in>set ds. \<forall>dep. lookup ts d = Some dep \<longrightarrow> column dep = Done)"
  by (induction ds) (auto simp: blocking_def split: option.splits)

lemma blocking_member:
  "d \<in> set ds \<Longrightarrow> lookup ts d = Some dep \<Longrightarrow> column dep \<noteq> Done \<Longrightarrow>
   blocker_of dep \<in> set (blocking ts ds)"
  by (auto simp: blocking_def intro!: bexI [of _ d])

lemma moveTask_Json:
  assumes "tasks_json w = Some (Json ts)" "lookup ts i = Some t"
  shows "moveTask w i (column_name col) =
     (if col = Doing \<and> blocking ts (dependencies t) \<noteq> []
      then (Inl (failure (blocked_message (blocking ts (dependencies t)))), w)
      else if col = Done \<and> requiresReview t = Some True \<and> column t \<noteq> Review
      then (Inl \<lparr> error = review_message, requiresReview_flag = Some True \<rparr>, w)
      else commit_move i col t w)"
proof -
  have "dependencies t = [] \<Longrightarrow> blocking ts (dependencies t) = []"
    by (simp add: blocking_def)
  then show ?thesis using assms
    by (auto simp: moveTask_def getTask_Json collect_blockers_Json Let_def)
qed

lemma moved_sel [simp]:
  "task_id (moved col t w) = task_id t"
  "column (moved col t w) = col"
  "status (moved col t w) = col"
  "comments (moved col t w) = comments t"
  "dependencies (moved col t w) = dependencies t"
  "retryCount (moved col t w) = retryCount t"
  "maxRetries (moved col t w) = maxRetries t"
  "requiresReview (moved col t w) = requiresReview t"
  "nextTask (moved col t w) = nextTask t"
  "title (moved col t w) = title t"
  "projectId (moved col t w) = projectId t"
  "assignee (moved col t w) = assignee t"
  "priority (moved col t w) = priority t"
  "tags (moved col t w) = tags t"
  "startedAt (moved col t w) =
     (if col = Doing \<and> startedAt t = None then Some (clock w (ticks w)) else startedAt t)"
  "completedAt (moved col t w) = (if col = Done then Some (clock w (ticks w)) else completedAt t)"
  "durationMs (moved col t w) =
     (if col = Done
      then (case startedAt t of Some s \<Rightarrow> Some (clock w (ticks w) - s) | None \<Rightarrow> durationMs t)
      else durationMs t)"
  "failedAt (moved col t w) = (if col = Failed then Some (clock w (ticks w)) else failedAt t)"
  by (simp_all add: moved_def merged_sel merged_column merged_status payload_sel split: option.splits)

lemma modify_const:
  "lookup ts i = Some t \<Longrightarrow> modify ts i f = modify ts i (\<lambda>_. f t)"
  by (auto simp: modify_def lookup_def dest: findIndex_Some split: option.splits)

lemma update_step:
  assumes "tasks_json w = Some (Json ts)" "lookup ts i = Some t"
  shows "(let (updates, w1) = move_updates col t w in updateTask i updates w1)
         = (Some (moved col t w), after_update col t ts w)"
proof -
  have i: "task_id t = i" using assms(2) by (rule lookup_task_id)
  have m: "modify ts i (merged (payload col t w) d) = modify ts i (\<lambda>_. merged (payload col t w) d t)" for d
    using assms(2) by (rule modify_const)
  show ?thesis
    using assms i
    by (simp add: move_updates_form updateTask_Json moved_def after_update_def m)
qed

lemma same_core_refl [simp]: "same_core t t"
  by (simp add: same_core_def)

lemma same_core_sel:
  assumes "same_core t t'"
  shows "task_id t' = task_id t" "column t' = column t" "status t' = status t"
    "dependencies t' = dependencies t" "startedAt t' = startedAt t"
    "completedAt t' = completedAt t" "durationMs t' = durationMs t" "failedAt t' = failedAt t"
    "retryCount t' = retryCount t" "maxRetries t' = maxRetries t"
    "requiresReview t' = requiresReview t" "nextTask t' = nextTask t"
    "title t' = title t"
proof -
  let ?r = "t\<lparr>comments := comments t', updatedAt := updatedAt t'\<rparr>"
  have e: "t' = ?r" using assms by (simp add: same_core_def)
  show "task_id t' = task_id t" using arg_cong [OF e, of task_id] by simp
  show "column t' = column t" using arg_cong [OF e, of column] by simp
  show "status t' = status t" using arg_cong [OF e, of status] by simp
  show "dependencies t' = dependencies t" using arg_cong [OF e, of dependencies] by simp
  show "startedAt t' = startedAt t" using arg_cong [OF e, of startedAt] by simp
  show "completedAt t' = completedAt t" using arg_cong [OF e, of completedAt] by simp
  show "durationMs t' = durationMs t" using arg_cong [OF e, of durationMs] by simp
  show "failedAt t' = failedAt t" using arg_cong [OF e, of failedAt] by simp
  show "retryCount t' = retryCount t" using arg_cong [OF e, of retryCount] by simp
  show "maxRetries t' = maxRetries t" using arg_cong [OF e, of maxRetries] by simp
  show "requiresReview t' = requiresReview t" using arg_cong [OF e, of requiresReview] by simp
  show "nextTask t' = nextTask t" using arg_cong [OF e, of nextTask] by simp
  show "title t' = title t" using arg_cong [OF e, of title] by simp
qed

lemma same_core_trans: "same_core a b \<Longrightarrow> same_core b c \<Longrightarrow> same_core a c"
proof -
  assume ab: "same_core a b" and bc: "same_core b c"
  have "c = b\<lparr>comments := comments c, updatedAt := updatedAt c\<rparr>"
    using bc by (simp add: same_core_def)
  also have "b = a\<lparr>comments := comments b, updatedAt := updatedAt b\<rparr>"
    using ab by (simp add: same_core_def)
  finally show ?thesis by (simp add: same_core_def)
qed

lemma same_core_commented [simp]: "same_core t (commented a txt d1 d2 t)"
  by (simp add: same_core_def commented_def)

lemma commented_sel [simp]:
  "task_id (commented a txt d1 d2 t) = task_id t"
  "comments (commented a txt d1 d2 t) = comments t @ [\<lparr> author = a, comment_text = txt, at = d1 \<rparr>]"
  "column (commented a txt d1 d2 t) = column t"
  "status (commented a txt d1 d2 t) = status t"
  "retryCount (commented a txt d1 d2 t) = retryCount t"
  "maxRetries (commented a txt d1 d2 t) = maxRetries t"
  "failedAt (commented a txt d1 d2 t) = failedAt t"
  "startedAt (commented a txt d1 d2 t) = startedAt t"
  "completedAt (commented a txt d1 d2 t) = completedAt t"
  "durationMs (commented a txt d1 d2 t) = durationMs t"
  "requiresReview (commented a txt d1 d2 t) = requiresReview t"
  "nextTask (commented a txt d1 d2 t) = nextTask t"
  "dependencies (commented a txt d1 d2 t) = dependencies t"
  by (simp_all add: commented_def)

lemma list_all2_same_core_modify:
  "list_all2 same_core ts (modify ts j (commented a txt d1 d2))"
proof (cases "findIndex (\<lambda>t. task_id t = j) ts")
  case None
  then show ?thesis by (simp add: modify_def list_all2_refl)
next
  case (Some n)
  have "list_all2 same_core (ts[n := ts ! n]) (ts[n := commented a txt d1 d2 (ts ! n)])"
    by (intro list_all2_update_cong) (simp_all add: list_all2_refl)
  then show ?thesis using Some by (simp add: modify_def)
qed

lemma list_all2_same_core_trans:
  "list_all2 same_core xs ys \<Longrightarrow> list_all2 same_core ys zs \<Longrightarrow> list_all2 same_core xs zs"
  by (rule list_all2_trans [of same_core same_core same_core]) (auto intro: same_core_trans)

lemma lookup_same_core:
  "list_all2 same_core ts ts' \<Longrightarrow> rel_option same_core (lookup ts j) (lookup ts' j)"
  by (induction rule: list_all2_induct) (auto simp: lookup_def same_core_sel(1))

lemma ids_same_core: "list_all2 same_core ts ts' \<Longrightarrow> map task_id ts' = map task_id ts"
  by (induction rule: list_all2_induct) (auto simp: same_core_sel(1))

lemma notify_each_Json:
  assumes "tasks_json w = Some (Json ts)"
  shows "\<exists>ts' k. notify_each xs i upd w = w\<lparr>tasks_json := Some (Json ts'), ticks := k + ticks w\<rparr>
             \<and> list_all2 same_core ts ts'"
  using assms
proof (induction xs arbitrary: w ts)
  case Nil
  have "w = w\<lparr>tasks_json := Some (Json ts), ticks := 0 + ticks w\<rparr>"
    using Nil by simp
  then show ?case using list_all2_refl [of same_core ts] by (metis notify_each.simps(1) same_core_refl)
next
  case (Cons x xs)
  show ?case
  proof (cases "i \<in> set (dependencies x)")
    case False
    then show ?thesis using Cons.IH [OF Cons.prems] by simp
  next
    case True
    define f where "f = commented ''system'' (resolved_message upd) (clock w (ticks w)) (clock w (Suc (ticks w)))"
    define k0 where "k0 = (if lookup ts (task_id x) = None then 1 else 3 :: nat)"
    define w1 where "w1 = w\<lparr>tasks_json := Some (Json (modify ts (task_id x) f)), ticks := k0 + ticks w\<rparr>"
    have step: "snd (addComment (task_id x) ''system'' (resolved_message upd) w) = w1"
      using Cons.prems by (simp add: addComment_Json f_def k0_def w1_def)
    have j1: "tasks_json w1 = Some (Json (modify ts (task_id x) f))"
      by (simp add: w1_def)
    from Cons.IH [OF j1] obtain ts' k where
      r: "notify_each xs i upd w1 = w1\<lparr>tasks_json := Some (Json ts'), ticks := k + ticks w1\<rparr>"
      and l: "list_all2 same_core (modify ts (task_id x) f) ts'" by blast
    have "list_all2 same_core ts (modify ts (task_id x) f)"
      unfolding f_def by (rule list_all2_same_core_modify)
    then have l': "list_all2 same_core ts ts'" using l by (rule list_all2_same_core_trans)
    have "notify_each (x # xs) i upd w = w\<lparr>tasks_json := Some (Json ts'), ticks := (k + k0) + ticks w\<rparr>"
      using True step r by (simp add: w1_def add.assoc)
    then show ?thesis using l' by blast
  qed
qed

lemma auto_chain_Json:
  assumes "tasks_json w = Some (Json ts)"
  shows "auto_chain col upd w =
     (case (if col = Done then nextTask upd else None) of
        None \<Rightarrow> (None, w)
      | Some nt \<Rightarrow>
          (let c = chained_from nt upd (''task_'' @ entropy w (draws w)) (clock w (ticks w))
                     (clock w (Suc (ticks w))) (clock w (Suc (Suc (ticks w))))
           in (Some c, w\<lparr>tasks_json := Some (Json (ts @ [c])), ticks := 4 + ticks w,
                          draws := Suc (draws w)\<rparr>)))"
  using assms
  by (simp add: auto_chain_def generateId_def now_def createTask_Json Let_def chained_from_def
      split: option.splits)

lemma lookup_modify_at:
  assumes "lookup ts i = Some t" "task_id (f t) = i"
  shows "lookup (modify ts i f) j = (if j = i then Some (f t) else lookup ts j)"
proof -
  from assms(1) obtain n where n: "findIndex (\<lambda>t. task_id t = i) ts = Some n"
    by (cases "findIndex (\<lambda>t. task_id t = i) ts") (auto simp: lookup_def findIndex_None)
  then have nn: "n < length ts" "ts ! n = t"
    using assms(1) by (auto simp: lookup_def dest: findIndex_Some)
  have idn: "task_id t = i" using assms(1) by (rule lookup_task_id)
  show ?thesis
  proof (cases "j = i")
    case True
    then show ?thesis using n nn assms(2)
      by (simp add: modify_def lookup_def find_list_update_hit)
  next
    case False
    then show ?thesis using n nn idn assms(2)
      by (simp add: modify_def lookup_def find_list_update_miss)
  qed
qed

lemma after_update_sel [simp]:
  "tasks_json (after_update col t ts w) = Some (Json (modify ts (task_id t) (\<lambda>_. moved col t w)))"
  "clock (after_update col t ts w) = clock w"
  "entropy (after_update col t ts w) = entropy w"
  "draws (after_update col t ts w) = draws w"
  "ticks (after_update col t ts w) =
     (if (col = Doing \<and> startedAt t = None) \<or> col = Done \<or> col = Failed then 3 else 2) + ticks w"
  by (simp_all add: after_update_def)

lemma stored_after_update [simp]:
  "stored (after_update col t ts w) = modify ts (task_id t) (\<lambda>_. moved col t w)"
  by (simp add: stored_Json)

lemma world_ok_after_update [simp]: "world_ok w (after_update col t ts w)"
  by (simp add: world_ok_def)

lemma lookup_after_update:
  "lookup ts i = Some t \<Longrightarrow>
   lookup (stored (after_update col t ts w)) j = (if j = i then Some (moved col t w) else lookup ts j)"
  using lookup_modify_at [of ts i t "\<lambda>_. moved col t w" j] lookup_task_id [of ts i t] by simp

lemma commit_move_Json:
  assumes "tasks_json w = Some (Json ts)" "lookup ts i = Some t"
  shows "commit_move i col t w =
     (let (r, w3) = auto_retry col (moved col t w) (after_update col t ts w);
          w4 = notify_dependents col i (moved col t w) w3;
          (spawned, w5) = auto_chain col (moved col t w) w4
      in (Inr \<lparr> task = moved col t w, retried = r, chainedTask = spawned \<rparr>, w5))"
  using update_step [OF assms, of col]
  by (simp add: commit_move_def case_prod_unfold Let_def)

lemma move_plain:
  assumes "tasks_json w = Some (Json ts)" "lookup ts i = Some t"
    and "col \<noteq> Done" "col \<noteq> Failed"
    and "col = Doing \<longrightarrow> blocking ts (dependencies t) = []"
  shows "moveTask w i (column_name col) =
     (Inr \<lparr> task = moved col t w, retried = False, chainedTask = None \<rparr>,
      after_update col t ts w)"
  using assms
  by (simp add: moveTask_Json commit_move_Json auto_retry_def notify_dependents_def
        auto_chain_def)

lemma retried_task_sel [simp]:
  "task_id (retried_task t w) = task_id t"
  "column (retried_task t w) = Todo"
  "status (retried_task t w) = Todo"
  "retryCount (retried_task t w) = Some (retry_count t + 1)"
  "maxRetries (retried_task t w) = maxRetries t"
  "failedAt (retried_task t w) = None"
  "startedAt (retried_task t w) = startedAt t"
  "requiresReview (retried_task t w) = requiresReview t"
  "nextTask (retried_task t w) = nextTask t"
  "dependencies (retried_task t w) = dependencies t"
  "comments (retried_task t w) = comments t @
      [\<lparr> author = ''system'',
         comment_text = retry_message (retry_count t + 1) (max_retries t),
         at = clock w (ticks w + 5) \<rparr>]"
  by (simp_all add: retried_task_def retryUpdates_def merged_sel merged_column merged_status)

lemma exhausted_task_sel [simp]:
  "task_id (exhausted_task t w) = task_id t"
  "column (exhausted_task t w) = Failed"
  "status (exhausted_task t w) = Failed"
  "retryCount (exhausted_task t w) = retryCount t"
  "maxRetries (exhausted_task t w) = maxRetries t"
  "failedAt (exhausted_task t w) = Some (clock w (ticks w))"
  "startedAt (exhausted_task t w) = startedAt t"
  "requiresReview (exhausted_task t w) = requiresReview t"
  "nextTask (exhausted_task t w) = nextTask t"
  "dependencies (exhausted_task t w) = dependencies t"
  "comments (exhausted_task t w) = comments t @
      [\<lparr> author = ''system'', comment_text = exhausted_message (max_retries t),
         at = clock w (ticks w + 3) \<rparr>]"
  by (simp_all add: exhausted_task_def)

lemma auto_retry_retry:
  assumes "tasks_json w = Some (Json ts)" "lookup ts i = Some t"
    and "retry_count t < max_retries t"
  shows "\<exists>w'. auto_retry Failed (moved Failed t w) (after_update Failed t ts w) = (True, w')
            \<and> world_ok w w' \<and> draws w' = draws w
            \<and> (\<forall>j. lookup (stored w') j = (if j = i then Some (retried_task t w) else lookup ts j))"
proof -
  let ?m = "moved Failed t w"
  let ?w2 = "after_update Failed t ts w"
  let ?ts2 = "modify ts i (\<lambda>_. ?m)"
  let ?f1 = "merged (retryUpdates (retry_count t)) (clock w (ticks w + 3))"
  let ?f2 = "commented ''system'' (retry_message (retry_count t + 1) (max_retries t))
               (clock w (ticks w + 5)) (clock w (ticks w + 6))"
  let ?ts3 = "modify ?ts2 i ?f1"
  let ?ts4 = "modify ?ts3 i ?f2"
  have i: "task_id t = i" using assms(2) by (rule lookup_task_id)
  have j2: "tasks_json ?w2 = Some (Json ?ts2)" by (simp add: i)
  have l2: "lookup ?ts2 j = (if j = i then Some ?m else lookup ts j)" for j
    using lookup_modify_at [OF assms(2), of "\<lambda>_. ?m" j] i by simp
  have id1: "task_id (?f1 ?m) = i"
    by (simp add: merged_sel retryUpdates_def i)
  have l3: "lookup ?ts3 j = (if j = i then Some (?f1 ?m) else lookup ts j)" for j
    using lookup_modify_at [of ?ts2 i ?m ?f1 j] l2 id1 by simp
  have l4: "lookup ?ts4 j = (if j = i then Some (?f2 (?f1 ?m)) else lookup ts j)" for j
    using lookup_modify_at [of ?ts3 i "?f1 ?m" ?f2 j] l3 id1 by simp
  define w3 where "w3 = ?w2\<lparr>tasks_json := Some (Json ?ts3), ticks := 2 + ticks ?w2\<rparr>"
  have u: "updateTask i (retryUpdates (retry_count t)) ?w2 = (Some (?f1 ?m), w3)"
    using updateTask_Json [OF j2, of i "retryUpdates (retry_count t)"] l2 [of i]
    by (simp add: w3_def add.commute)
  have j3: "tasks_json w3 = Some (Json ?ts3)" by (simp add: w3_def)
  define w4 where "w4 = w3\<lparr>tasks_json := Some (Json ?ts4), ticks := 3 + ticks w3\<rparr>"
  have c: "addComment i ''system'' (retry_message (retry_count t + 1) (max_retries t)) w3
           = (Some (?f2 (?f1 ?m)), w4)"
    using addComment_Json [OF j3, of i] l3 [of i]
    by (simp add: w4_def w3_def add.commute)
  have "auto_retry Failed ?m ?w2 = (True, w4)"
    using assms(3) u c
    by (simp add: auto_retry_def retry_count_def max_retries_def retryUpdates_def i Let_def)
  moreover have "world_ok w w4" "draws w4 = draws w"
    by (simp_all add: world_ok_def w4_def w3_def stored_Json)
  moreover have "lookup (stored w4) j = (if j = i then Some (retried_task t w) else lookup ts j)" for j
    using l4 [of j] by (simp add: w4_def stored_Json retried_task_def)
  ultimately show ?thesis by blast
qed

lemma auto_retry_exhausted:
  assumes "tasks_json w = Some (Json ts)" "lookup ts i = Some t"
    and "\<not> retry_count t < max_retries t"
  shows "\<exists>w'. auto_retry Failed (moved Failed t w) (after_update Failed t ts w) = (False, w')
            \<and> world_ok w w' \<and> draws w' = draws w
            \<and> (\<forall>j. lookup (stored w') j = (if j = i then Some (exhausted_task t w) else lookup ts j))"
proof -
  let ?m = "moved Failed t w"
  let ?w2 = "after_update Failed t ts w"
  let ?ts2 = "modify ts i (\<lambda>_. ?m)"
  let ?f2 = "commented ''system'' (exhausted_message (max_retries t))
               (clock w (ticks w + 3)) (clock w (ticks w + 4))"
  let ?ts3 = "modify ?ts2 i ?f2"
  have i: "task_id t = i" using assms(2) by (rule lookup_task_id)
  have j2: "tasks_json ?w2 = Some (Json ?ts2)" by (simp add: i)
  have l2: "lookup ?ts2 j = (if j = i then Some ?m else lookup ts j)" for j
    using lookup_modify_at [OF assms(2), of "\<lambda>_. ?m" j] i by simp
  have l3: "lookup ?ts3 j = (if j = i then Some (?f2 ?m) else lookup ts j)" for j
    using lookup_modify_at [of ?ts2 i ?m ?f2 j] l2 i by simp
  define w3 where "w3 = ?w2\<lparr>tasks_json := Some (Json ?ts3), ticks := 3 + ticks ?w2\<rparr>"
  have c: "addComment i ''system'' (exhausted_message (max_retries t)) ?w2 = (Some (?f2 ?m), w3)"
    using addComment_Json [OF j2, of i] l2 [of i]
    by (simp add: w3_def add.commute)
  have "auto_retry Failed ?m ?w2 = (False, w3)"
    using assms(3) c
    by (simp add: auto_retry_def retry_count_def max_retries_def i Let_def)
  moreover have "world_ok w w3" "draws w3 = draws w"
    by (simp_all add: world_ok_def w3_def stored_Json)
  moreover have "lookup (stored w3) j = (if j = i then Some (exhausted_task t w) else lookup ts j)" for j
    using l3 [of j] by (simp add: w3_def stored_Json exhausted_task_def)
  ultimately show ?thesis by blast
qed

lemma move_failed:
  assumes "tasks_json w = Some (Json ts)" "lookup ts i = Some t"
  shows "\<exists>w'. moveTask w i ''failed'' =
            (Inr \<lparr> task = moved Failed t w, retried = (retry_count t < max_retries t),
                   chainedTask = None \<rparr>, w')
          \<and> world_ok w w' \<and> draws w' = draws w
          \<and> (\<forall>j. lookup (stored w') j =
                 (if j = i
                  then Some (if retry_count t < max_retries t
                             then retried_task t w else exhausted_task t w)
                  else lookup ts j))"
proof (cases "retry_count t < max_retries t")
  case True
  from auto_retry_retry [OF assms True] obtain w' where
    "auto_retry Failed (moved Failed t w) (after_update Failed t ts w) = (True, w')"
    "world_ok w w'" "draws w' = draws w"
    "\<forall>j. lookup (stored w') j = (if j = i then Some (retried_task t w) else lookup ts j)"
    by blast
  then show ?thesis using True assms moveTask_Json [OF assms, of Failed]
    by (simp add: commit_move_Json notify_dependents_def auto_chain_def)
next
  case False
  from auto_retry_exhausted [OF assms False] obtain w' where
    "auto_retry Failed (moved Failed t w) (after_update Failed t ts w) = (False, w')"
    "world_ok w w'" "draws w' = draws w"
    "\<forall>j. lookup (stored w') j = (if j = i then Some (exhausted_task t w) else lookup ts j)"
    by blast
  then show ?thesis using False assms moveTask_Json [OF assms, of Failed]
    by (simp add: commit_move_Json notify_dependents_def auto_chain_def)
qed

lemma move_done:
  assumes "tasks_json w = Some (Json ts)" "lookup ts i = Some t"
    and "\<not> (requiresReview t = Some True \<and> column t \<noteq> Review)"
  shows "\<exists>w' ts3 sp. moveTask w i ''done'' =
            (Inr \<lparr> task = moved Done t w, retried = False, chainedTask = sp \<rparr>, w')
          \<and> world_ok w w'
          \<and> list_all2 same_core (modify ts i (\<lambda>_. moved Done t w)) ts3
          \<and> (case nextTask t of
                None \<Rightarrow> sp = None \<and> stored w' = ts3
              | Some nt \<Rightarrow>
                  (\<exists>new_id d1 d2 d3.
                     sp = Some (chained_from nt (moved Done t w) new_id d1 d2 d3)
                     \<and> stored w' = ts3 @ [chained_from nt (moved Done t w) new_id d1 d2 d3]))"
proof -
  let ?m = "moved Done t w"
  let ?w2 = "after_update Done t ts w"
  let ?ts2 = "modify ts i (\<lambda>_. ?m)"
  have i: "task_id t = i" using assms(2) by (rule lookup_task_id)
  have j2: "tasks_json ?w2 = Some (Json ?ts2)" by (simp add: i)
  from notify_each_Json [OF j2, of ?ts2 i ?m] obtain ts3 k where
    n: "notify_each ?ts2 i ?m ?w2 = ?w2\<lparr>tasks_json := Some (Json ts3), ticks := k + ticks ?w2\<rparr>"
    and l: "list_all2 same_core ?ts2 ts3" by blast
  define w4 where "w4 = ?w2\<lparr>tasks_json := Some (Json ts3), ticks := k + ticks ?w2\<rparr>"
  have nd: "notify_dependents Done i ?m ?w2 = w4"
    using n by (simp add: notify_dependents_def getTasks_Json [OF j2] w4_def)
  have j4: "tasks_json w4 = Some (Json ts3)" by (simp add: w4_def)
  have ok4: "world_ok w w4" by (simp add: world_ok_def w4_def stored_Json)
  have mv: "moveTask w i ''done'' =
      (let (spawned, w5) = auto_chain Done ?m w4
       in (Inr \<lparr> task = ?m, retried = False, chainedTask = spawned \<rparr>, w5))"
  proof -
    have "moveTask w i ''done'' = commit_move i Done t w"
      using assms(3) moveTask_Json [OF assms(1,2), of Done] by auto
    then show ?thesis using assms(1,2) nd
      by (simp add: commit_move_Json auto_retry_def)
  qed
  show ?thesis
  proof (cases "nextTask t")
    case None
    then have "auto_chain Done ?m w4 = (None, w4)"
      by (simp add: auto_chain_Json [OF j4])
    then show ?thesis using mv ok4 l None j4 by (auto simp: stored_Json)
  next
    case (Some nt)
    define c where "c = chained_from nt ?m (''task_'' @ entropy w4 (draws w4)) (clock w4 (ticks w4))
                     (clock w4 (Suc (ticks w4))) (clock w4 (Suc (Suc (ticks w4))))"
    define w5 where "w5 = w4\<lparr>tasks_json := Some (Json (ts3 @ [c])), ticks := 4 + ticks w4,
                          draws := Suc (draws w4)\<rparr>"
    have ac: "auto_chain Done ?m w4 = (Some c, w5)"
      using Some by (simp add: auto_chain_Json [OF j4] c_def w5_def Let_def)
    have ok5: "world_ok w w5"
      using ok4 by (simp add: world_ok_def w5_def stored_Json)
    have st: "stored w5 = ts3 @ [c]" by (simp add: w5_def stored_Json)
    have ex: "\<exists>new_id d1 d2 d3. Some c = Some (chained_from nt ?m new_id d1 d2 d3)
                \<and> stored w5 = ts3 @ [chained_from nt ?m new_id d1 d2 d3]"
      using st unfolding c_def by blast
    have "moveTask w i ''done'' = (Inr \<lparr> task = ?m, retried = False, chainedTask = Some c \<rparr>, w5)"
      using mv ac by simp
    then show ?thesis using ok5 l Some ex
      by (intro exI [of _ w5] exI [of _ ts3] exI [of _ "Some c"]) simp
  qed
qed


section \<open>The cycle check finds exactly the reachable ids\<close>

lemma getTask_fst: "fst (getTask w i) = lookup (stored w) i"
  by (simp add: getTask_def stored_def lookup_def case_prod_unfold Let_def)

lemma stored_getTask [simp]: "stored (snd (getTask w i)) = stored w"
  by (simp add: stored_def getTask_def read_tasks_def readJSON_def Let_def case_prod_unfold
        split: option.splits file_text.splits)

lemma set_last_butlast: "xs \<noteq> [] \<Longrightarrow> set xs = insert (last xs) (set (butlast xs))"
  by (metis append_butlast_last_id list.simps(15) set_append Un_insert_right
        sup_bot.right_neutral list.set(1))

lemma closed_reach:
  assumes "(v, x) \<in> (dep_edges ts)\<^sup>*" "v \<in> visited" "x \<notin> visited"
    and "\<forall>a\<in>visited. \<forall>b. (a, b) \<in> dep_edges ts \<longrightarrow> b \<in> visited \<union> S"
  shows "\<exists>s\<in>S. (s, x) \<in> (dep_edges ts)\<^sup>*"
  using assms
proof (induction rule: converse_rtrancl_induct)
  case base
  then show ?case by simp
next
  case (step a b)
  then have "b \<in> visited \<union> S" by blast
  then show ?case using step by blast
qed

lemma hasCycle_loop_reach:
  assumes "taskId \<notin> visited"
    and "\<forall>a\<in>visited. \<forall>b. (a, b) \<in> dep_edges (stored w) \<longrightarrow> b \<in> visited \<union> set stack"
  shows "fst (hasCycle_loop w taskId visited stack) \<longleftrightarrow>
         (\<exists>s\<in>set stack. (s, taskId) \<in> (dep_edges (stored w))\<^sup>*)"
  using assms
proof (induction w taskId visited stack rule: hasCycle_loop.induct)
  case (1 w taskId visited stack)
  let ?E = "dep_edges (stored w)"
  show ?case
  proof (cases "stack = []")
    case True
    then show ?thesis by (simp add: hasCycle_loop.simps [of w taskId visited "[]"])
  next
    case ne: False
    define current where "current = last stack"
    define stack1 where "stack1 = butlast stack"
    have st: "set stack = insert current (set stack1)"
      using ne by (simp add: current_def stack1_def set_last_butlast)
    show ?thesis
    proof (cases "current = taskId")
      case True
      then show ?thesis using ne st
        by (auto simp: hasCycle_loop.simps [of w taskId visited stack] current_def Let_def)
    next
      case neq: False
      show ?thesis
      proof (cases "current \<in> visited")
        case True
        have inv: "\<forall>a\<in>visited. \<forall>b. (a, b) \<in> ?E \<longrightarrow> b \<in> visited \<union> set stack1"
          using "1.prems"(2) st True by auto
        have "fst (hasCycle_loop w taskId visited stack) = fst (hasCycle_loop w taskId visited stack1)"
          using ne neq True
          by (simp add: hasCycle_loop.simps [of w taskId visited stack] current_def stack1_def Let_def)
        also have "\<dots> \<longleftrightarrow> (\<exists>s\<in>set stack1. (s, taskId) \<in> ?E\<^sup>*)"
          using "1.IH"(1) [OF ne current_def stack1_def neq True "1.prems"(1) inv] .
        also have "\<dots> \<longleftrightarrow> (\<exists>s\<in>set stack. (s, taskId) \<in> ?E\<^sup>*)"
        proof
          assume "\<exists>s\<in>set stack1. (s, taskId) \<in> ?E\<^sup>*"
          then show "\<exists>s\<in>set stack. (s, taskId) \<in> ?E\<^sup>*"
            unfolding st by blast
        next
          assume "\<exists>s\<in>set stack. (s, taskId) \<in> ?E\<^sup>*"
          then obtain s where s: "s \<in> set stack" "(s, taskId) \<in> ?E\<^sup>*" by blast
          show "\<exists>s\<in>set stack1. (s, taskId) \<in> ?E\<^sup>*"
          proof (cases "s = current")
            case True
            with s(2) have "(current, taskId) \<in> ?E\<^sup>*" by simp
            then show ?thesis
              using \<open>current \<in> visited\<close> "1.prems"(1) inv by (rule closed_reach)
          next
            case False
            with s st have "s \<in> set stack1" by simp
            with s(2) show ?thesis by blast
          qed
        qed
        finally show ?thesis .
      next
        case False
        define succs where
          "succs = (case fst (getTask w current) of None \<Rightarrow> [] | Some t \<Rightarrow> dependencies t)"
        have stack': "(case fst (getTask w current) of
                         None \<Rightarrow> stack1 | Some t \<Rightarrow> stack1 @ dependencies t) = stack1 @ succs"
          by (simp add: succs_def split: option.splits)
        have edges: "\<And>b. (current, b) \<in> ?E \<longleftrightarrow> b \<in> set succs"
          by (cases "lookup (stored w) current")
             (auto simp: dep_edges_def succs_def getTask_fst)
        have inv: "\<forall>a\<in>insert current visited.
                     \<forall>b. (a, b) \<in> dep_edges (stored (snd (getTask w current))) \<longrightarrow>
                         b \<in> insert current visited \<union> set (stack1 @ succs)"
        proof (intro ballI allI impI)
          fix a b
          assume a: "a \<in> insert current visited"
            and "(a, b) \<in> dep_edges (stored (snd (getTask w current)))"
          then have ab: "(a, b) \<in> ?E" by simp
          show "b \<in> insert current visited \<union> set (stack1 @ succs)"
          proof (cases "a = current")
            case True
            with ab edges show ?thesis by simp
          next
            case False
            with a have "a \<in> visited" by simp
            with ab "1.prems"(2) have "b \<in> visited \<union> set stack" by blast
            then show ?thesis unfolding st by auto
          qed
        qed
        have nv: "taskId \<notin> insert current visited"
          using neq "1.prems"(1) by auto
        have "fst (hasCycle_loop w taskId visited stack) =
              fst (hasCycle_loop (snd (getTask w current)) taskId (insert current visited)
                     (stack1 @ succs))"
          using ne neq False
          by (simp add: hasCycle_loop.simps [of w taskId visited stack] Let_def
                stack' [unfolded current_def stack1_def] current_def stack1_def)
        also have "\<dots> \<longleftrightarrow> (\<exists>s\<in>set (stack1 @ succs). (s, taskId) \<in> ?E\<^sup>*)"
          using "1.IH"(2) [OF ne current_def stack1_def neq False nv] inv stack' by simp
        also have "\<dots> \<longleftrightarrow> (\<exists>s\<in>set stack. (s, taskId) \<in> ?E\<^sup>*)"
        proof
          assume "\<exists>s\<in>set (stack1 @ succs). (s, taskId) \<in> ?E\<^sup>*"
          then obtain s where s: "s \<in> set stack1 \<or> s \<in> set succs" "(s, taskId) \<in> ?E\<^sup>*"
            by auto
          show "\<exists>s\<in>set stack. (s, taskId) \<in> ?E\<^sup>*"
          proof (cases "s \<in> set stack1")
            case True
            then show ?thesis using s st by blast
          next
            case False
            then have "(current, s) \<in> ?E" using s edges by blast
            then have "(current, taskId) \<in> ?E\<^sup>*"
              using s(2) by (rule converse_rtrancl_into_rtrancl)
            then show ?thesis using st by blast
          qed
        next
          assume "\<exists>s\<in>set stack. (s, taskId) \<in> ?E\<^sup>*"
          then obtain s where s: "s \<in> set stack" "(s, taskId) \<in> ?E\<^sup>*" by auto
          show "\<exists>s\<in>set (stack1 @ succs). (s, taskId) \<in> ?E\<^sup>*"
          proof (cases "s = current")
            case True
            with s(2) neq obtain b where "(current, b) \<in> ?E" "(b, taskId) \<in> ?E\<^sup>*"
              by (metis converse_rtranclE)
            then show ?thesis using edges by auto
          next
            case False
            then show ?thesis using s st by auto
          qed
        qed
        finally show ?thesis .
      qed
    qed
  qed
qed

lemma hasCycle_loop_stored: "stored (snd (hasCycle_loop w taskId visited stack)) = stored w"
proof (induction w taskId visited stack rule: hasCycle_loop.induct)
  case (1 w taskId visited stack)
  show ?case
  proof (cases "stack = []")
    case True
    then show ?thesis by (simp add: hasCycle_loop.simps [of w taskId visited "[]"])
  next
    case False
    then show ?thesis using 1
      by (simp add: hasCycle_loop.simps [of w taskId visited stack] Let_def)
  qed
qed

text \<open>
  C9. \<^verbatim>\<open>hasCycle(taskId, dependencies)\<close> is true exactly when \<^verbatim>\<open>taskId\<close> can be
  reached from one of the proposed ids along the stored dependency lists, in zero or
  more steps. An id with no stored task has no outgoing edge: it is popped, marked
  and contributes nothing. Proposing \<^verbatim>\<open>[B]\<close> on \<^verbatim>\<open>A\<close> when \<^verbatim>\<open>B\<close> depends on \<^verbatim>\<open>A\<close>
  through \<^verbatim>\<open>C\<close> is the instance below.
\<close>

theorem hasCycle_iff_reachable:
  "fst (hasCycle w taskId proposed) \<longleftrightarrow>
     (\<exists>d\<in>set proposed. (d, taskId) \<in> (dep_edges (stored w))\<^sup>*)"
  unfolding hasCycle_def by (rule hasCycle_loop_reach) simp_all

theorem hasCycle_iff_reachable_witness:
  "fst (hasCycle cyclic_board ''A'' [''B'']) \<and>
   (\<exists>d\<in>set [''B'']. (d, ''A'') \<in> (dep_edges (stored cyclic_board))\<^sup>*) \<and>
   \<not> fst (hasCycle cyclic_board ''B'' [''A'', ''ghost'']) \<and>
   \<not> (\<exists>d\<in>set [''A'', ''ghost'']. (d, ''B'') \<in> (dep_edges (stored cyclic_board))\<^sup>*)"
proof -
  have a: "fst (hasCycle cyclic_board ''A'' [''B''])"
    by (simp add: hasCycle_def hasCycle_loop.simps cyclic_board_def board_def makeTask_def
          getTask_def read_tasks_def readJSON_def Let_def)
  have b: "\<not> fst (hasCycle cyclic_board ''B'' [''A'', ''ghost''])"
    by (simp add: hasCycle_def hasCycle_loop.simps cyclic_board_def board_def makeTask_def
          getTask_def read_tasks_def readJSON_def Let_def)
  show ?thesis
    using a b hasCycle_iff_reachable [of cyclic_board "''A''" "[''B'']"]
      hasCycle_iff_reachable [of cyclic_board "''B''" "[''A'', ''ghost'']"]
    by blast
qed

section \<open>Reading a malformed file; dependencies with no task\<close>

lemma filter_if_Nil [simp]: "filter_if k p [] = []"
  by (simp add: filter_if_def split: option.splits)

lemma read_tasks_Garbage: "tasks_json w = Some Garbage \<Longrightarrow> read_tasks w = ([], w)"
  by (simp add: read_tasks_def readJSON_def)

lemma stored_board [simp]: "stored (board ts) = ts"
  by (simp add: board_def stored_Json)

lemma tasks_json_board [simp]: "tasks_json (board ts) = Some (Json ts)"
  by (simp add: board_def)

lemma moveTask_stored:
  assumes "lookup (stored w) i = Some t"
  shows "moveTask w i (column_name col) =
     (if col = Doing \<and> blocking (stored w) (dependencies t) \<noteq> []
      then (Inl (failure (blocked_message (blocking (stored w) (dependencies t)))), w)
      else if col = Done \<and> requiresReview t = Some True \<and> column t \<noteq> Review
      then (Inl \<lparr> error = review_message, requiresReview_flag = Some True \<rparr>, w)
      else commit_move i col t w)"
  using moveTask_Json [OF lookup_stored_Json [OF assms] assms] .

lemma move_plain_stored:
  assumes "lookup (stored w) i = Some t"
    and "col \<noteq> Done" "col \<noteq> Failed"
    and "col = Doing \<longrightarrow> blocking (stored w) (dependencies t) = []"
  shows "moveTask w i (column_name col) =
     (Inr \<lparr> task = moved col t w, retried = False, chainedTask = None \<rparr>,
      after_update col t (stored w) w)"
  using move_plain [OF lookup_stored_Json [OF assms(1)] assms] .

text \<open>
  C8. When the collection file does not parse, \<^verbatim>\<open>readJSON\<close> catches the error and
  returns the fallback: every list operation returns the empty list and every get
  returns \<^verbatim>\<open>undefined\<close>, and the file is left as it is. No read error reaches the
  caller.
\<close>

theorem malformed_file_reads_as_empty:
  "tasks_json w = Some Garbage \<Longrightarrow>
   getTasks w filters = ([], w) \<and> getTask w i = (None, w)"
  by (simp add: getTasks_def getTask_def read_tasks_Garbage)

theorem malformed_file_reads_as_empty_witness:
  "tasks_json corrupt_board = Some Garbage \<and>
   getTasks corrupt_board (no_filters\<lparr>f_assignee := Some ''bot''\<rparr>) = ([], corrupt_board) \<and>
   getTask corrupt_board ''task_1'' = (None, corrupt_board)"
  using malformed_file_reads_as_empty
          [of corrupt_board "no_filters\<lparr>f_assignee := Some ''bot''\<rparr>" "''task_1''"]
  by (simp add: corrupt_board_def)

theorem malformed_file_counterexample:
  "readJSON (Some (Garbage :: Task file_text)) [] = ([], Some Garbage) \<and>
   getTasks corrupt_board no_filters = ([], corrupt_board) \<and>
   getTask corrupt_board ''t1'' = (None, corrupt_board)"
  by (simp add: corrupt_board_def getTasks_def getTask_def read_tasks_Garbage readJSON_def)

text \<open>
  C7. A dependency id for which no task is stored is not a blocker: the loop skips
  it. When a task lists such an id and every dependency that is stored is done, the
  move to \<^verbatim>\<open>doing\<close> succeeds.
\<close>

theorem missing_dependency_does_not_block:
  assumes "lookup (stored w) taskId = Some t"
    and "d \<in> set (dependencies t)" "lookup (stored w) d = None"
    and "\<forall>d'\<in>set (dependencies t). \<forall>dep. lookup (stored w) d' = Some dep \<longrightarrow> column dep = Done"
  shows "\<exists>r w'. moveTask w taskId ''doing'' = (Inr r, w') \<and> column (task r) = Doing
            \<and> lookup (stored w') taskId = Some (task r)"
proof -
  have "blocking (stored w) (dependencies t) = []"
    using assms(4) by (simp add: blocking_empty_iff)
  then have "moveTask w taskId (column_name Doing) =
      (Inr \<lparr> task = moved Doing t w, retried = False, chainedTask = None \<rparr>,
       after_update Doing t (stored w) w)"
    using assms(1) by (intro move_plain_stored) simp_all
  then show ?thesis
    using lookup_after_update [OF assms(1), of Doing w taskId] by simp
qed

theorem missing_dependency_does_not_block_witness:
  "lookup (stored ghost_board) ''a'' = Some (makeTask ''a'' Todo [''ghost'']) \<and>
   ''ghost'' \<in> set (dependencies (makeTask ''a'' Todo [''ghost''])) \<and>
   lookup (stored ghost_board) ''ghost'' = None \<and>
   (\<exists>r w'. moveTask ghost_board ''a'' ''doing'' = (Inr r, w') \<and> column (task r) = Doing
       \<and> lookup (stored w') ''a'' = Some (task r))"
  using missing_dependency_does_not_block
          [of ghost_board "''a''" "makeTask ''a'' Todo [''ghost'']" "''ghost''"]
  by (simp add: ghost_board_def lookup_def makeTask_def)

theorem missing_dependency_counterexample:
  "lookup (stored ghost_board) ''ghost'' = None \<and>
   (case fst (moveTask ghost_board ''a'' ''doing'') of
      Inl e \<Rightarrow> False
    | Inr r \<Rightarrow> column (task r) = Doing \<and> dependencies (task r) = [''ghost''])"
proof -
  have l: "lookup (stored ghost_board) ''a'' = Some (makeTask ''a'' Todo [''ghost''])"
    by (simp add: ghost_board_def lookup_def makeTask_def)
  have g: "lookup (stored ghost_board) ''ghost'' = None"
    by (simp add: ghost_board_def lookup_def makeTask_def)
  have "blocking (stored ghost_board) (dependencies (makeTask ''a'' Todo [''ghost''])) = []"
    using g by (simp add: blocking_def makeTask_def)
  then have "moveTask ghost_board ''a'' (column_name Doing) =
      (Inr \<lparr> task = moved Doing (makeTask ''a'' Todo [''ghost'']) ghost_board,
             retried = False, chainedTask = None \<rparr>,
       after_update Doing (makeTask ''a'' Todo [''ghost'']) (stored ghost_board) ghost_board)"
    using l by (intro move_plain_stored) simp_all
  then show ?thesis using g by (simp add: makeTask_def)
qed

section \<open>The gates and the retried move\<close>

lemma set_blocking:
  "set (blocking ts ds) =
     {\<lparr> b_id = task_id dep, b_title = title dep, b_column = column dep \<rparr> | d dep.
        d \<in> set ds \<and> lookup ts d = Some dep \<and> column dep \<noteq> Done}"
proof (induction ds)
  case Nil
  then show ?case by (simp add: blocking_def)
next
  case (Cons d ds)
  have "blocking ts (d # ds) =
      (case lookup ts d of None \<Rightarrow> []
       | Some dep \<Rightarrow> if column dep \<noteq> Done then [blocker_of dep] else []) @ blocking ts ds"
    by (simp add: blocking_def)
  then show ?case using Cons.IH
    by (cases "lookup ts d") (auto simp: blocker_of_def)
qed

lemma lookup_append:
  "lookup (xs @ ys) i = (case lookup xs i of Some t \<Rightarrow> Some t | None \<Rightarrow> lookup ys i)"
  by (induction xs) (simp_all add: lookup_def)

lemma as_column_Some: "as_column c = Some col \<Longrightarrow> c = column_name col"
  by (auto simp: as_column_def VALID_COLUMNS_def split: if_splits)

lemma moveTask_invalid:
  "c = [] \<or> as_column c = None \<Longrightarrow> \<exists>e. moveTask w i c = (Inl e, w)"
  by (auto simp: moveTask_def)

lemma move_failed_stored:
  assumes "lookup (stored w) i = Some t"
  shows "\<exists>w'. moveTask w i ''failed'' =
            (Inr \<lparr> task = moved Failed t w, retried = (retry_count t < max_retries t),
                   chainedTask = None \<rparr>, w')
          \<and> world_ok w w' \<and> draws w' = draws w
          \<and> (\<forall>j. lookup (stored w') j =
                 (if j = i
                  then Some (if retry_count t < max_retries t
                             then retried_task t w else exhausted_task t w)
                  else lookup (stored w) j))"
  using move_failed [OF lookup_stored_Json [OF assms] assms] .

lemma move_done_stored:
  assumes "lookup (stored w) i = Some t"
    and "\<not> (requiresReview t = Some True \<and> column t \<noteq> Review)"
  shows "\<exists>w' before sp s.
            moveTask w i ''done'' =
              (Inr \<lparr> task = moved Done t w, retried = False, chainedTask = sp \<rparr>, w')
          \<and> world_ok w w'
          \<and> map task_id before = map task_id (stored w)
          \<and> lookup before i = Some s \<and> same_core (moved Done t w) s
          \<and> lookup (stored w') i = Some s
          \<and> (case nextTask t of
                None \<Rightarrow> sp = None \<and> stored w' = before
              | Some nt \<Rightarrow>
                  (\<exists>new_id d1 d2 d3.
                     sp = Some (chained_from nt (moved Done t w) new_id d1 d2 d3)
                     \<and> stored w' = before @ [chained_from nt (moved Done t w) new_id d1 d2 d3]))"
proof -
  let ?m = "moved Done t w"
  let ?ts2 = "modify (stored w) i (\<lambda>_. ?m)"
  from move_done [OF lookup_stored_Json [OF assms(1)] assms] obtain w' ts3 sp where
    mv: "moveTask w i ''done'' = (Inr \<lparr> task = ?m, retried = False, chainedTask = sp \<rparr>, w')"
    and ok: "world_ok w w'"
    and l: "list_all2 same_core ?ts2 ts3"
    and ch: "case nextTask t of
                None \<Rightarrow> sp = None \<and> stored w' = ts3
              | Some nt \<Rightarrow>
                  (\<exists>new_id d1 d2 d3.
                     sp = Some (chained_from nt ?m new_id d1 d2 d3)
                     \<and> stored w' = ts3 @ [chained_from nt ?m new_id d1 d2 d3])"
    by blast
  have i: "task_id t = i" using assms(1) by (rule lookup_task_id)
  have "lookup ?ts2 i = Some ?m"
    using lookup_modify_at [OF assms(1), of "\<lambda>_. ?m" i] i by simp
  with lookup_same_core [OF l, of i] obtain s where
    s: "lookup ts3 i = Some s" "same_core ?m s"
    by (auto simp: option_rel_Some1)
  have ids: "map task_id ts3 = map task_id (stored w)"
  proof -
    have "map task_id ts3 = map task_id ?ts2" using l by (rule ids_same_core)
    also have "\<dots> = map task_id (stored w)"
      using assms(1) i
      by (auto simp: modify_def lookup_def map_update list_update_same_conv
               dest: findIndex_Some split: option.splits)
    finally show ?thesis .
  qed
  have "lookup (stored w') i = Some s"
    using ch s(1) by (auto simp: lookup_append split: option.splits)
  then show ?thesis using mv ok ids s ch by blast
qed

lemma moveTask_frame:
  assumes "lookup (stored w) i = Some t"
  shows "\<exists>t'. lookup (stored (snd (moveTask w i c))) i = Some t'
           \<and> maxRetries t' = maxRetries t
           \<and> requiresReview t' = requiresReview t
           \<and> nextTask t' = nextTask t
           \<and> dependencies t' = dependencies t
           \<and> (startedAt t \<noteq> None \<longrightarrow> startedAt t' = startedAt t)
           \<and> (c \<noteq> ''failed'' \<longrightarrow> retryCount t' = retryCount t)
           \<and> (c = ''doing'' \<longrightarrow> comments t' = comments t)"
proof (cases "c = [] \<or> as_column c = None")
  case True
  from moveTask_invalid [OF this, of w i] show ?thesis using assms by auto
next
  case False
  then obtain col where col: "as_column c = Some col" by auto
  then have c: "c = column_name col" by (rule as_column_Some)
  note mt = moveTask_stored [OF assms, of col]
  consider (gate) "snd (moveTask w i c) = w"
    | (commit) "moveTask w i c = commit_move i col t w"
        "\<not> (col = Doing \<and> blocking (stored w) (dependencies t) \<noteq> [])"
        "\<not> (col = Done \<and> requiresReview t = Some True \<and> column t \<noteq> Review)"
    using mt unfolding c by (auto split: if_splits)
  then show ?thesis
  proof cases
    case gate
    then show ?thesis using assms by simp
  next
    case commit
    show ?thesis
    proof (cases "col = Done")
      case True
      with commit(3) have g: "\<not> (requiresReview t = Some True \<and> column t \<noteq> Review)" by simp
      from move_done_stored [OF assms g] obtain w' sp s where
        "moveTask w i ''done'' = (Inr \<lparr> task = moved Done t w, retried = False, chainedTask = sp \<rparr>, w')"
        "lookup (stored w') i = Some s" "same_core (moved Done t w) s"
        by blast
      then show ?thesis using True c same_core_sel [of "moved Done t w" s] by simp
    next
      case nd: False
      show ?thesis
      proof (cases "col = Failed")
        case True
        from move_failed_stored [OF assms] obtain w' where
          "moveTask w i ''failed'' =
            (Inr \<lparr> task = moved Failed t w, retried = (retry_count t < max_retries t),
                   chainedTask = None \<rparr>, w')"
          "\<forall>j. lookup (stored w') j =
                 (if j = i
                  then Some (if retry_count t < max_retries t
                             then retried_task t w else exhausted_task t w)
                  else lookup (stored w) j)"
          by blast
        then show ?thesis using True c by simp
      next
        case nf: False
        have "moveTask w i (column_name col) =
           (Inr \<lparr> task = moved col t w, retried = False, chainedTask = None \<rparr>,
            after_update col t (stored w) w)"
          using assms nd nf commit(2) by (intro move_plain_stored) simp_all
        then show ?thesis
          using lookup_after_update [OF assms, of col w i] c by simp
      qed
    qed
  qed
qed

lemma join_contains:
  "x \<in> set xs \<Longrightarrow> \<exists>pre post. join sep xs = pre @ x @ post"
proof (induction sep xs rule: join.induct)
  case (1 sep)
  then show ?case by simp
next
  case (2 sep y)
  then have "join sep [y] = [] @ x @ []" by simp
  then show ?case by blast
next
  case (3 sep y z zs)
  show ?case
  proof (cases "x = y")
    case True
    then have "join sep (y # z # zs) = [] @ x @ (sep @ join sep (z # zs))" by simp
    then show ?thesis by blast
  next
    case False
    with 3 obtain pre post where "join sep (z # zs) = pre @ x @ post" by auto
    then have "join sep (y # z # zs) = (y @ sep @ pre) @ x @ post" by simp
    then show ?thesis by blast
  qed
qed

lemma blocking_map_filter:
  "blocking ts ds =
     List.map_filter
       (\<lambda>d. case lookup ts d of
               None \<Rightarrow> None
             | Some dep \<Rightarrow>
                 if column dep \<noteq> Done
                 then Some \<lparr> b_id = task_id dep, b_title = title dep, b_column = column dep \<rparr>
                 else None) ds"
  by (induction ds)
     (auto simp: blocking_def map_filter_simps blocker_of_def split: option.splits)

text \<open>
  C1. A task with a stored dependency whose column is not \<^verbatim>\<open>done\<close> cannot move to
  \<^verbatim>\<open>doing\<close>. The call returns an error whose text is
  \<^verbatim>\<open>Blocked by unresolved dependencies: \<close> followed by one entry
  \<^verbatim>\<open>"title" (id, status: column)\<close> for every stored dependency not yet done, in the
  order of the dependency list, separated by a comma and a space; the entry of every
  such dependency occurs in the text. The world it returns is the one it was given,
  so the task and everything else is unchanged. When every stored dependency is
  done, the same call succeeds and the stored task is in \<^verbatim>\<open>doing\<close>.
\<close>

theorem dependency_gate:
  assumes \<open>lookup (stored w) taskId = Some t\<close>
  shows \<open>((\<exists>d\<in>set (dependencies t). \<exists>dep. lookup (stored w) d = Some dep \<and> column dep \<noteq> Done) \<longrightarrow>
            (\<exists>blockers msg.
                 moveTask w taskId ''doing''
                   = (Inl \<lparr> error = msg, requiresReview_flag = None \<rparr>, w)
               \<and> msg = ''Blocked by unresolved dependencies: '' @
                       join '', ''
                         (map (\<lambda>b. ''"'' @ b_title b @ ''" ('' @ b_id b @ '', status: '' @
                                    column_name (b_column b) @ '')'') blockers)
               \<and> blockers =
                   List.map_filter
                     (\<lambda>d. case lookup (stored w) d of
                             None \<Rightarrow> None
                           | Some dep \<Rightarrow>
                               if column dep \<noteq> Done
                               then Some \<lparr> b_id = task_id dep, b_title = title dep,
                                           b_column = column dep \<rparr>
                               else None)
                     (dependencies t)
               \<and> set blockers =
                   {\<lparr> b_id = task_id dep, b_title = title dep, b_column = column dep \<rparr> | d dep.
                      d \<in> set (dependencies t) \<and> lookup (stored w) d = Some dep
                      \<and> column dep \<noteq> Done}
               \<and> (\<forall>d\<in>set (dependencies t). \<forall>dep.
                      lookup (stored w) d = Some dep \<and> column dep \<noteq> Done \<longrightarrow>
                      (\<exists>pre post.
                          msg = pre @ ''"'' @ title dep @ ''" ('' @ task_id dep @ '', status: '' @
                                  column_name (column dep) @ '')'' @ post))))
       \<and> ((\<forall>d\<in>set (dependencies t). \<forall>dep. lookup (stored w) d = Some dep \<longrightarrow> column dep = Done) \<longrightarrow>
            (\<exists>r w'. moveTask w taskId ''doing'' = (Inr r, w') \<and> column (task r) = Doing
               \<and> status (task r) = Doing \<and> lookup (stored w') taskId = Some (task r)))\<close>
proof (intro conjI impI)
  assume \<open>\<exists>d\<in>set (dependencies t). \<exists>dep. lookup (stored w) d = Some dep \<and> column dep \<noteq> Done\<close>
  then have ne: \<open>blocking (stored w) (dependencies t) \<noteq> []\<close>
    by (simp add: blocking_empty_iff)
  let ?bs = \<open>blocking (stored w) (dependencies t)\<close>
  let ?entry = \<open>\<lambda>b. ''"'' @ b_title b @ ''" ('' @ b_id b @ '', status: '' @
                     column_name (b_column b) @ '')''\<close>
  let ?msg = \<open>''Blocked by unresolved dependencies: '' @ join '', '' (map ?entry ?bs)\<close>
  have mv: \<open>moveTask w taskId ''doing'' = (Inl \<lparr> error = ?msg, requiresReview_flag = None \<rparr>, w)\<close>
    using ne moveTask_stored [OF assms, of Doing]
    by (simp add: failure_def blocked_message_def)
  have occ: \<open>\<exists>pre post.
                ?msg = pre @ ''"'' @ title dep @ ''" ('' @ task_id dep @ '', status: '' @
                         column_name (column dep) @ '')'' @ post\<close>
    if \<open>d \<in> set (dependencies t)\<close> \<open>lookup (stored w) d = Some dep\<close> \<open>column dep \<noteq> Done\<close>
    for d dep
  proof -
    have \<open>blocker_of dep \<in> set ?bs\<close> using that by (rule blocking_member)
    then have \<open>?entry (blocker_of dep) \<in> set (map ?entry ?bs)\<close> by (simp only: set_map) (rule imageI)
    from join_contains [OF this, of \<open>'', ''\<close>] obtain pre post where
      \<open>join '', '' (map ?entry ?bs) = pre @ ?entry (blocker_of dep) @ post\<close> by blast
    then have \<open>?msg = (''Blocked by unresolved dependencies: '' @ pre)
                 @ ''"'' @ title dep @ ''" ('' @ task_id dep @ '', status: '' @
                   column_name (column dep) @ '')'' @ post\<close>
      by (simp add: blocker_of_def)
    then show ?thesis by blast
  qed
  show \<open>\<exists>blockers msg.
                 moveTask w taskId ''doing''
                   = (Inl \<lparr> error = msg, requiresReview_flag = None \<rparr>, w)
               \<and> msg = ''Blocked by unresolved dependencies: '' @
                       join '', ''
                         (map (\<lambda>b. ''"'' @ b_title b @ ''" ('' @ b_id b @ '', status: '' @
                                    column_name (b_column b) @ '')'') blockers)
               \<and> blockers =
                   List.map_filter
                     (\<lambda>d. case lookup (stored w) d of
                             None \<Rightarrow> None
                           | Some dep \<Rightarrow>
                               if column dep \<noteq> Done
                               then Some \<lparr> b_id = task_id dep, b_title = title dep,
                                           b_column = column dep \<rparr>
                               else None)
                     (dependencies t)
               \<and> set blockers =
                   {\<lparr> b_id = task_id dep, b_title = title dep, b_column = column dep \<rparr> | d dep.
                      d \<in> set (dependencies t) \<and> lookup (stored w) d = Some dep
                      \<and> column dep \<noteq> Done}
               \<and> (\<forall>d\<in>set (dependencies t). \<forall>dep.
                      lookup (stored w) d = Some dep \<and> column dep \<noteq> Done \<longrightarrow>
                      (\<exists>pre post.
                          msg = pre @ ''"'' @ title dep @ ''" ('' @ task_id dep @ '', status: '' @
                                  column_name (column dep) @ '')'' @ post))\<close>
    apply (rule exI [of _ ?bs], rule exI [of _ ?msg])
    apply (intro conjI)
        apply (rule mv)
       apply (rule refl)
      apply (rule blocking_map_filter)
     apply (rule set_blocking)
    using occ apply blast
    done
next
  assume \<open>\<forall>d\<in>set (dependencies t). \<forall>dep. lookup (stored w) d = Some dep \<longrightarrow> column dep = Done\<close>
  then have \<open>blocking (stored w) (dependencies t) = []\<close>
    by (simp add: blocking_empty_iff)
  then have \<open>moveTask w taskId (column_name Doing) =
      (Inr \<lparr> task = moved Doing t w, retried = False, chainedTask = None \<rparr>,
       after_update Doing t (stored w) w)\<close>
    using assms by (intro move_plain_stored) simp_all
  then show \<open>\<exists>r w'. moveTask w taskId ''doing'' = (Inr r, w') \<and> column (task r) = Doing
               \<and> status (task r) = Doing \<and> lookup (stored w') taskId = Some (task r)\<close>
    using lookup_after_update [OF assms, of Doing w taskId] by simp
qed

theorem dependency_gate_witness:
  \<open>lookup (stored blocked_board) ''a'' = Some (makeTask ''a'' Todo [''b'', ''c'', ''d''])
   \<and> (\<exists>d\<in>set (dependencies (makeTask ''a'' Todo [''b'', ''c'', ''d''])).
         \<exists>dep. lookup (stored blocked_board) d = Some dep \<and> column dep \<noteq> Done)
   \<and> moveTask blocked_board ''a'' ''doing''
       = (Inl \<lparr> error = ''Blocked by unresolved dependencies: "Design" (c, status: backlog), "Build" (d, status: review)'',
                requiresReview_flag = None \<rparr>,
          blocked_board)
   \<and> lookup (stored ready_board) ''a'' = Some (makeTask ''a'' Todo [''b'', ''c'', ''d''])
   \<and> map (\<lambda>d. map_option column (lookup (stored ready_board) d)) [''b'', ''c'', ''d'']
       = [Some Done, Some Done, Some Done]
   \<and> (\<exists>r w'. moveTask ready_board ''a'' ''doing'' = (Inr r, w') \<and> column (task r) = Doing
         \<and> status (task r) = Doing \<and> lookup (stored w') ''a'' = Some (task r))\<close>
proof -
  let ?a = \<open>makeTask ''a'' Todo [''b'', ''c'', ''d'']\<close>
  have l1: \<open>lookup (stored blocked_board) ''a'' = Some ?a\<close>
    and l2: \<open>lookup (stored ready_board) ''a'' = Some ?a\<close>
    by (simp_all add: blocked_board_def ready_board_def lookup_def makeTask_def)
  have h1: \<open>\<exists>d\<in>set (dependencies ?a).
              \<exists>dep. lookup (stored blocked_board) d = Some dep \<and> column dep \<noteq> Done\<close>
    by (simp add: blocked_board_def lookup_def makeTask_def)
  have h2: \<open>\<forall>d\<in>set (dependencies ?a).
              \<forall>dep. lookup (stored ready_board) d = Some dep \<longrightarrow> column dep = Done\<close>
    by (auto simp: ready_board_def lookup_def makeTask_def)
  from dependency_gate [OF l1, THEN conjunct1, THEN mp, OF h1] obtain blockers msg where
    mv: \<open>moveTask blocked_board ''a'' ''doing''
           = (Inl \<lparr> error = msg, requiresReview_flag = None \<rparr>, blocked_board)\<close>
    and msg: \<open>msg = ''Blocked by unresolved dependencies: '' @
                       join '', ''
                         (map (\<lambda>b. ''"'' @ b_title b @ ''" ('' @ b_id b @ '', status: '' @
                                    column_name (b_column b) @ '')'') blockers)\<close>
    and bs: \<open>blockers =
                   List.map_filter
                     (\<lambda>d. case lookup (stored blocked_board) d of
                             None \<Rightarrow> None
                           | Some dep \<Rightarrow>
                               if column dep \<noteq> Done
                               then Some \<lparr> b_id = task_id dep, b_title = title dep,
                                           b_column = column dep \<rparr>
                               else None)
                     (dependencies ?a)\<close>
    by blast
  have \<open>blockers = [\<lparr> b_id = ''c'', b_title = ''Design'', b_column = Backlog \<rparr>,
                    \<lparr> b_id = ''d'', b_title = ''Build'', b_column = Review \<rparr>]\<close>
    unfolding bs
    by (simp add: map_filter_simps blocked_board_def lookup_def makeTask_def)
  then have lit: \<open>msg = ''Blocked by unresolved dependencies: "Design" (c, status: backlog), "Build" (d, status: review)''\<close>
    unfolding msg by simp
  note c1 = mv [unfolded lit]
  note c2 = dependency_gate [OF l2, THEN conjunct2, THEN mp, OF h2]
  have b: \<open>map (\<lambda>d. map_option column (lookup (stored ready_board) d)) [''b'', ''c'', ''d'']
       = [Some Done, Some Done, Some Done]\<close>
    by (simp add: ready_board_def lookup_def makeTask_def)
  show ?thesis
    using l1 l2 h1 b c1 c2 by (intro conjI)
qed

text \<open>
  C4. A task with \<^verbatim>\<open>requiresReview\<close> set that is in \<^verbatim>\<open>doing\<close> cannot move to \<^verbatim>\<open>done\<close>:
  the call returns the quality-gate error, with its text and the \<^verbatim>\<open>requiresReview\<close>
  flag, and the world it was given. Its move to \<^verbatim>\<open>review\<close> succeeds, and from there the move to
  \<^verbatim>\<open>done\<close> succeeds; so does the move to \<^verbatim>\<open>done\<close> of any such task in \<^verbatim>\<open>review\<close>.
\<close>

theorem quality_gate:
  assumes "lookup (stored w) taskId = Some t" "requiresReview t = Some True"
  shows "(column t = Doing \<longrightarrow>
            moveTask w taskId ''done''
              = (Inl \<lparr> error = ''Quality gate: this task requires review before done. Move to 'review' first.'', requiresReview_flag = Some True \<rparr>, w)
            \<and> (\<exists>r w'. moveTask w taskId ''review'' = (Inr r, w') \<and> column (task r) = Review
                  \<and> lookup (stored w') taskId = Some (task r)
                  \<and> (\<exists>r2 w2 s. moveTask w' taskId ''done'' = (Inr r2, w2)
                        \<and> column (task r2) = Done
                        \<and> lookup (stored w2) taskId = Some s \<and> column s = Done)))
       \<and> (column t = Review \<longrightarrow>
            (\<exists>r w' s. moveTask w taskId ''done'' = (Inr r, w') \<and> column (task r) = Done
                \<and> lookup (stored w') taskId = Some s \<and> column s = Done))"
proof -
  have from_review: "\<exists>r w' s. moveTask v taskId ''done'' = (Inr r, w') \<and> column (task r) = Done
                \<and> lookup (stored w') taskId = Some s \<and> column s = Done"
    if "lookup (stored v) taskId = Some u" "column u = Review" for v u
  proof -
    from that have g: "\<not> (requiresReview u = Some True \<and> column u \<noteq> Review)" by simp
    from move_done_stored [OF that(1) g] obtain w' sp s where
      "moveTask v taskId ''done'' =
         (Inr \<lparr> task = moved Done u v, retried = False, chainedTask = sp \<rparr>, w')"
      "lookup (stored w') taskId = Some s" "same_core (moved Done u v) s"
      by blast
    then show ?thesis using same_core_sel(2) [of "moved Done u v" s] by auto
  qed
  show ?thesis
  proof (intro conjI impI)
    assume "column t = Doing"
    then show "moveTask w taskId ''done''
              = (Inl \<lparr> error = ''Quality gate: this task requires review before done. Move to 'review' first.'', requiresReview_flag = Some True \<rparr>, w)"
      using assms(2) moveTask_stored [OF assms(1), of Done] by (simp add: review_message_def)
  next
    assume "column t = Doing"
    have mv: "moveTask w taskId (column_name Review) =
        (Inr \<lparr> task = moved Review t w, retried = False, chainedTask = None \<rparr>,
         after_update Review t (stored w) w)"
      using assms(1) by (intro move_plain_stored) simp_all
    have l: "lookup (stored (after_update Review t (stored w) w)) taskId = Some (moved Review t w)"
      using lookup_after_update [OF assms(1), of Review w taskId] by simp
    from from_review [OF l] mv l
    show "\<exists>r w'. moveTask w taskId ''review'' = (Inr r, w') \<and> column (task r) = Review
                  \<and> lookup (stored w') taskId = Some (task r)
                  \<and> (\<exists>r2 w2 s. moveTask w' taskId ''done'' = (Inr r2, w2)
                        \<and> column (task r2) = Done
                        \<and> lookup (stored w2) taskId = Some s \<and> column s = Done)"
      by simp
  next
    assume "column t = Review"
    with from_review [OF assms(1)]
    show "\<exists>r w' s. moveTask w taskId ''done'' = (Inr r, w') \<and> column (task r) = Done
                \<and> lookup (stored w') taskId = Some s \<and> column s = Done"
      by simp
  qed
qed

theorem quality_gate_witness:
  "lookup (stored review_board) ''r'' = Some ((makeTask ''r'' Doing [])\<lparr>requiresReview := Some True\<rparr>)
   \<and> moveTask review_board ''r'' ''done''
       = (Inl \<lparr> error = ''Quality gate: this task requires review before done. Move to 'review' first.'', requiresReview_flag = Some True \<rparr>, review_board)
   \<and> (\<exists>r w'. moveTask review_board ''r'' ''review'' = (Inr r, w') \<and> column (task r) = Review
         \<and> lookup (stored w') ''r'' = Some (task r)
         \<and> (\<exists>r2 w2 s. moveTask w' ''r'' ''done'' = (Inr r2, w2) \<and> column (task r2) = Done
               \<and> lookup (stored w2) ''r'' = Some s \<and> column s = Done))"
proof -
  have l: "lookup (stored review_board) ''r''
           = Some ((makeTask ''r'' Doing [])\<lparr>requiresReview := Some True\<rparr>)"
    by (simp add: review_board_def lookup_def makeTask_def)
  show ?thesis
    using quality_gate [OF l] l by (simp add: makeTask_def)
qed

text \<open>
  C10. When a move to \<^verbatim>\<open>failed\<close> is retried, the task in the result is the one the
  first write returned: column \<^verbatim>\<open>failed\<close>, \<^verbatim>\<open>failedAt\<close> set, \<^verbatim>\<open>retryCount\<close> as before.
  The task stored when the call returns is in \<^verbatim>\<open>todo\<close>, with the count incremented
  and no \<^verbatim>\<open>failedAt\<close>. The two differ.
\<close>

theorem retried_move_returns_failed_snapshot:
  assumes "lookup (stored w) taskId = Some t"
    and "(case retryCount t of None \<Rightarrow> 0 | Some n \<Rightarrow> n)
           < (case maxRetries t of None \<Rightarrow> 2 | Some m \<Rightarrow> m)"
  shows "\<exists>r w' s. moveTask w taskId ''failed'' = (Inr r, w') \<and> retried r
           \<and> column (task r) = Failed \<and> failedAt (task r) = Some (clock w (ticks w))
           \<and> retryCount (task r) = retryCount t
           \<and> lookup (stored w') taskId = Some s
           \<and> column s = Todo \<and> failedAt s = None
           \<and> retryCount s = Some ((case retryCount t of None \<Rightarrow> 0 | Some n \<Rightarrow> n) + 1)
           \<and> task r \<noteq> s"
proof -
  have lt: "retry_count t < max_retries t"
    using assms(2) by (simp add: retry_count_def max_retries_def)
  from move_failed_stored [OF assms(1)] lt obtain w' where
    mv: "moveTask w taskId ''failed'' =
           (Inr \<lparr> task = moved Failed t w, retried = True, chainedTask = None \<rparr>, w')"
    and l: "lookup (stored w') taskId = Some (retried_task t w)"
    by auto
  have "column (moved Failed t w) \<noteq> column (retried_task t w)" by simp
  then have "moved Failed t w \<noteq> retried_task t w" by metis
  then show ?thesis using mv l by (simp add: retry_count_def)
qed

theorem retried_move_returns_failed_snapshot_witness:
  "lookup (stored retry_board) ''f''
     = Some ((makeTask ''f'' Doing [])\<lparr>maxRetries := Some 2, retryCount := Some 0\<rparr>)
   \<and> (\<exists>r w' s. moveTask retry_board ''f'' ''failed'' = (Inr r, w') \<and> retried r
           \<and> column (task r) = Failed \<and> failedAt (task r) = Some 1000
           \<and> retryCount (task r) = Some 0
           \<and> lookup (stored w') ''f'' = Some s
           \<and> column s = Todo \<and> failedAt s = None \<and> retryCount s = Some 1
           \<and> task r \<noteq> s)"
proof -
  have l: "lookup (stored retry_board) ''f''
     = Some ((makeTask ''f'' Doing [])\<lparr>maxRetries := Some 2, retryCount := Some 0\<rparr>)"
    by (simp add: retry_board_def lookup_def makeTask_def)
  have c: "clock retry_board (ticks retry_board) = 1000"
    by (simp add: retry_board_def board_def)
  show ?thesis
    using retried_move_returns_failed_snapshot [OF l] l c by (simp add: makeTask_def)
qed

section \<open>The bound on automatic retries\<close>

lemma move_all_snoc: "move_all w i (cs @ [c]) = snd (moveTask (move_all w i cs) i c)"
  by (induction cs arbitrary: w) simp_all

lemma retry_message_1_2:
  "retry_message 1 2 = ''Auto-retry 1/2: task moved back to todo after failure.''"
  by (simp add: retry_message_def show_int_def show_nat.simps)

lemma retry_message_2_2:
  "retry_message 2 2 = ''Auto-retry 2/2: task moved back to todo after failure.''"
  by (simp add: retry_message_def show_int_def show_nat.simps)

lemma exhausted_message_2:
  "exhausted_message 2 = ''Max retries (2) exhausted. Task requires manual intervention.''"
  by (simp add: exhausted_message_def show_int_def show_nat.simps)

text \<open>
  C2. A task with \<^verbatim>\<open>maxRetries = 2\<close> and no retry yet is moved to \<^verbatim>\<open>failed\<close> three
  times, with a move to \<^verbatim>\<open>doing\<close> in between. The three calls report
  \<^verbatim>\<open>retried\<close> true, true, false; the stored \<^verbatim>\<open>retryCount\<close> after them is 1, 2, 2.
  After each of the first two the stored task is in \<^verbatim>\<open>todo\<close> with no \<^verbatim>\<open>failedAt\<close>
  and its last comment is the system comment with the attempt number; after the
  third it is in \<^verbatim>\<open>failed\<close> and its last comment is the system comment that the
  retries are exhausted.
\<close>

theorem auto_retry_bound:
  assumes "lookup (stored w) taskId = Some t"
    and "maxRetries t = Some 2"
    and "retryCount t = None \<or> retryCount t = Some 0"
  shows "(\<exists>m1 m2 m3.
            fst (moveTask w taskId ''failed'') = Inr m1 \<and> retried m1
          \<and> fst (moveTask (move_all w taskId [''failed'', ''doing'']) taskId ''failed'') = Inr m2
          \<and> retried m2
          \<and> fst (moveTask (move_all w taskId [''failed'', ''doing'', ''failed'', ''doing''])
                   taskId ''failed'') = Inr m3
          \<and> \<not> retried m3)
       \<and> (\<exists>s1 d. lookup (stored (move_all w taskId [''failed''])) taskId = Some s1
            \<and> retryCount s1 = Some 1 \<and> column s1 = Todo \<and> failedAt s1 = None
            \<and> last (comments s1) =
                 \<lparr> author = ''system'',
                   comment_text = ''Auto-retry 1/2: task moved back to todo after failure.'',
                   at = d \<rparr>)
       \<and> (\<exists>s2 d. lookup (stored (move_all w taskId [''failed'', ''doing'', ''failed''])) taskId
                   = Some s2
            \<and> retryCount s2 = Some 2 \<and> column s2 = Todo \<and> failedAt s2 = None
            \<and> last (comments s2) =
                 \<lparr> author = ''system'',
                   comment_text = ''Auto-retry 2/2: task moved back to todo after failure.'',
                   at = d \<rparr>)
       \<and> (\<exists>s3 d. lookup (stored (move_all w taskId
                                    [''failed'', ''doing'', ''failed'', ''doing'', ''failed'']))
                     taskId = Some s3
            \<and> retryCount s3 = Some 2 \<and> column s3 = Failed
            \<and> last (comments s3) =
                 \<lparr> author = ''system'',
                   comment_text = ''Max retries (2) exhausted. Task requires manual intervention.'',
                   at = d \<rparr>)"
proof -
  \<comment> \<open>first failure\<close>
  have rc0: "retry_count t = 0" "max_retries t = 2"
    using assms(2,3) by (auto simp: retry_count_def max_retries_def)
  from move_failed_stored [OF assms(1)] rc0 obtain w1 where
    m1: "moveTask w taskId ''failed'' =
           (Inr \<lparr> task = moved Failed t w, retried = True, chainedTask = None \<rparr>, w1)"
    and l1: "lookup (stored w1) taskId = Some (retried_task t w)"
    by auto
  let ?s1 = "retried_task t w"
  have w1: "move_all w taskId [''failed''] = w1" using m1 by simp
  \<comment> \<open>back to doing\<close>
  define w2 where "w2 = snd (moveTask w1 taskId ''doing'')"
  from moveTask_frame [OF l1, of "''doing''"] obtain t2 where
    l2: "lookup (stored w2) taskId = Some t2"
    and f2: "maxRetries t2 = maxRetries ?s1" "retryCount t2 = retryCount ?s1"
    unfolding w2_def by auto
  have rc2: "retry_count t2 = 1" "max_retries t2 = 2"
    using f2 assms(2) rc0 by (simp_all add: retry_count_def max_retries_def)
  have w2': "move_all w taskId [''failed'', ''doing''] = w2"
    using m1 by (simp add: w2_def)
  \<comment> \<open>second failure\<close>
  from move_failed_stored [OF l2] rc2 obtain w3 where
    m2: "moveTask w2 taskId ''failed'' =
           (Inr \<lparr> task = moved Failed t2 w2, retried = True, chainedTask = None \<rparr>, w3)"
    and l3: "lookup (stored w3) taskId = Some (retried_task t2 w2)"
    by auto
  let ?s2 = "retried_task t2 w2"
  have w3: "move_all w taskId [''failed'', ''doing'', ''failed''] = w3"
    using m1 m2 by (simp add: w2_def)
  \<comment> \<open>back to doing\<close>
  define w4 where "w4 = snd (moveTask w3 taskId ''doing'')"
  from moveTask_frame [OF l3, of "''doing''"] obtain t4 where
    l4: "lookup (stored w4) taskId = Some t4"
    and f4: "maxRetries t4 = maxRetries ?s2" "retryCount t4 = retryCount ?s2"
    unfolding w4_def by auto
  have rc4: "retry_count t4 = 2" "max_retries t4 = 2" "retryCount t4 = Some 2"
    using f4 f2 assms(2) rc2 by (simp_all add: retry_count_def max_retries_def)
  have w4': "move_all w taskId [''failed'', ''doing'', ''failed'', ''doing''] = w4"
    using m1 m2 by (simp add: w2_def w4_def)
  \<comment> \<open>third failure\<close>
  from move_failed_stored [OF l4] rc4 obtain w5 where
    m3: "moveTask w4 taskId ''failed'' =
           (Inr \<lparr> task = moved Failed t4 w4, retried = False, chainedTask = None \<rparr>, w5)"
    and l5: "lookup (stored w5) taskId = Some (exhausted_task t4 w4)"
    by auto
  let ?s3 = "exhausted_task t4 w4"
  have w5: "move_all w taskId [''failed'', ''doing'', ''failed'', ''doing'', ''failed''] = w5"
    using m1 m2 m3 by (simp add: w2_def w4_def)
  have A: "\<exists>m1 m2 m3.
            fst (moveTask w taskId ''failed'') = Inr m1 \<and> retried m1
          \<and> fst (moveTask (move_all w taskId [''failed'', ''doing'']) taskId ''failed'') = Inr m2
          \<and> retried m2
          \<and> fst (moveTask (move_all w taskId [''failed'', ''doing'', ''failed'', ''doing''])
                   taskId ''failed'') = Inr m3
          \<and> \<not> retried m3"
    unfolding w2' w4' using m1 m2 m3 by simp
  have B: "\<exists>s1 d. lookup (stored (move_all w taskId [''failed''])) taskId = Some s1
            \<and> retryCount s1 = Some 1 \<and> column s1 = Todo \<and> failedAt s1 = None
            \<and> last (comments s1) =
                 \<lparr> author = ''system'',
                   comment_text = ''Auto-retry 1/2: task moved back to todo after failure.'',
                   at = d \<rparr>"
    unfolding w1 using l1 rc0 by (simp add: retry_message_1_2)
  have C: "\<exists>s2 d. lookup (stored (move_all w taskId [''failed'', ''doing'', ''failed''])) taskId
                   = Some s2
            \<and> retryCount s2 = Some 2 \<and> column s2 = Todo \<and> failedAt s2 = None
            \<and> last (comments s2) =
                 \<lparr> author = ''system'',
                   comment_text = ''Auto-retry 2/2: task moved back to todo after failure.'',
                   at = d \<rparr>"
    unfolding w3 using l3 rc2 by (simp add: retry_message_2_2)
  have D: "\<exists>s3 d. lookup (stored (move_all w taskId
                                    [''failed'', ''doing'', ''failed'', ''doing'', ''failed'']))
                     taskId = Some s3
            \<and> retryCount s3 = Some 2 \<and> column s3 = Failed
            \<and> last (comments s3) =
                 \<lparr> author = ''system'',
                   comment_text = ''Max retries (2) exhausted. Task requires manual intervention.'',
                   at = d \<rparr>"
    unfolding w5 using l5 rc4 by (simp add: exhausted_message_2)
  from A B C D show ?thesis by (intro conjI)
qed

theorem auto_retry_bound_witness:
  "lookup (stored doomed_board) ''t''
     = Some ((makeTask ''t'' Doing [])\<lparr>maxRetries := Some 2, retryCount := Some 0\<rparr>)
   \<and> (\<exists>m1 m2 m3.
            fst (moveTask doomed_board ''t'' ''failed'') = Inr m1 \<and> retried m1
          \<and> fst (moveTask (move_all doomed_board ''t'' [''failed'', ''doing'']) ''t'' ''failed'')
              = Inr m2
          \<and> retried m2
          \<and> fst (moveTask (move_all doomed_board ''t'' [''failed'', ''doing'', ''failed'', ''doing''])
                   ''t'' ''failed'') = Inr m3
          \<and> \<not> retried m3)
   \<and> (\<exists>s3 d. lookup (stored (move_all doomed_board ''t''
                                [''failed'', ''doing'', ''failed'', ''doing'', ''failed'']))
                 ''t'' = Some s3
        \<and> retryCount s3 = Some 2 \<and> column s3 = Failed
        \<and> last (comments s3) =
             \<lparr> author = ''system'',
               comment_text = ''Max retries (2) exhausted. Task requires manual intervention.'',
               at = d \<rparr>)"
proof -
  let ?t = "(makeTask ''t'' Doing [])\<lparr>maxRetries := Some 2, retryCount := Some 0\<rparr>"
  have l: "lookup (stored doomed_board) ''t'' = Some ?t"
    by (simp add: doomed_board_def lookup_def makeTask_def)
  have h: "maxRetries ?t = Some 2" "retryCount ?t = None \<or> retryCount ?t = Some 0"
    by simp_all
  from auto_retry_bound [OF l h] l show ?thesis by blast
qed

section \<open>Duration and the first start\<close>





section \<open>The chained task\<close>

lemma chained_from_sel [simp]:
  "column (chained_from nt u n d1 d2 d3) = Todo"
  "status (chained_from nt u n d1 d2 d3) = Todo"
  "parentTaskId (chained_from nt u n d1 d2 d3) = Some (task_id u)"
  "title (chained_from nt u n d1 d2 d3) = nt_title nt"
  "assignee (chained_from nt u n d1 d2 d3) = nt_assignee nt"
  "description (chained_from nt u n d1 d2 d3) =
     (case nt_description nt of
        None \<Rightarrow> chained_description u
      | Some d \<Rightarrow> if d = [] then chained_description u else d)"
  "priority (chained_from nt u n d1 d2 d3) =
     (case nt_priority nt of None \<Rightarrow> priority u | Some p \<Rightarrow> p)"
  "tags (chained_from nt u n d1 d2 d3) = (case nt_tags nt of None \<Rightarrow> tags u | Some g \<Rightarrow> g)"
  "comments (chained_from nt u n d1 d2 d3) =
     [\<lparr> author = ''system'', comment_text = created_message u, at = d1 \<rparr>]"
  by (simp_all add: chained_from_def)

lemma chained_strings_moved [simp]:
  "chained_description (moved col t w) = chained_description t"
  "created_message (moved col t w) = created_message t"
  by (simp_all add: chained_description_def created_message_def)

text \<open>
  C6. A move to \<^verbatim>\<open>done\<close> that passes the quality gate succeeds. If the task has no
  \<^verbatim>\<open>nextTask\<close>, no task is spawned and the collection holds the same ids as before.
  If it has one, exactly one task is appended to the collection and returned as
  \<^verbatim>\<open>chainedTask\<close>: in \<^verbatim>\<open>todo\<close> (column and status), its \<^verbatim>\<open>parentTaskId\<close> the id of the
  finished task, title and assignee from the template, priority and tags from the
  template when it has them and from the finished task otherwise, the description
  from the template when it has one that is not empty and the text
  \<^verbatim>\<open>Chained from: title (id)\<close> otherwise, and one system comment, whose text is
  \<^verbatim>\<open>Auto-created from completed task "title" (id)\<close>, with the title and the id of
  the finished task.
\<close>

theorem chaining:
  assumes \<open>lookup (stored w) taskId = Some t\<close>
    and \<open>\<not> (requiresReview t = Some True \<and> column t \<noteq> Review)\<close>
  shows \<open>\<exists>r w'. moveTask w taskId ''done'' = (Inr r, w')
          \<and> chained_description t = ''Chained from: '' @ title t @ '' ('' @ taskId @ '')''
          \<and> created_message t =
                ''Auto-created from completed task "'' @ title t @ ''" ('' @ taskId @ '')''
          \<and> (case nextTask t of
                None \<Rightarrow>
                  chainedTask r = None \<and> map task_id (stored w') = map task_id (stored w)
              | Some nt \<Rightarrow>
                  (\<exists>c before d.
                      chainedTask r = Some c
                    \<and> stored w' = before @ [c]
                    \<and> map task_id before = map task_id (stored w)
                    \<and> column c = Todo \<and> status c = Todo
                    \<and> parentTaskId c = Some taskId
                    \<and> title c = nt_title nt \<and> assignee c = nt_assignee nt
                    \<and> description c =
                        (case nt_description nt of
                           None \<Rightarrow> chained_description t
                         | Some d \<Rightarrow> if d = [] then chained_description t else d)
                    \<and> priority c = (case nt_priority nt of None \<Rightarrow> priority t | Some p \<Rightarrow> p)
                    \<and> tags c = (case nt_tags nt of None \<Rightarrow> tags t | Some g \<Rightarrow> g)
                    \<and> comments c =
                        [\<lparr> author = ''system'', comment_text = created_message t, at = d \<rparr>]))\<close>
proof -
  have i: "task_id t = taskId" using assms(1) by (rule lookup_task_id)
  have lits: \<open>chained_description t = ''Chained from: '' @ title t @ '' ('' @ taskId @ '')''\<close>
    \<open>created_message t =
       ''Auto-created from completed task "'' @ title t @ ''" ('' @ taskId @ '')''\<close>
    by (simp_all add: chained_description_def created_message_def i)
  from move_done_stored [OF assms] obtain w' before sp s where
    mv: "moveTask w taskId ''done'' =
           (Inr \<lparr> task = moved Done t w, retried = False, chainedTask = sp \<rparr>, w')"
    and ids: "map task_id before = map task_id (stored w)"
    and ch: "case nextTask t of
                None \<Rightarrow> sp = None \<and> stored w' = before
              | Some nt \<Rightarrow>
                  (\<exists>new_id d1 d2 d3.
                     sp = Some (chained_from nt (moved Done t w) new_id d1 d2 d3)
                     \<and> stored w' = before @ [chained_from nt (moved Done t w) new_id d1 d2 d3])"
    by blast
  show ?thesis
  proof (cases "nextTask t")
    case None
    then show ?thesis using mv ids ch lits by simp
  next
    case (Some nt)
    with ch obtain new_id d1 d2 d3 where
      sp: "sp = Some (chained_from nt (moved Done t w) new_id d1 d2 d3)"
      and st: "stored w' = before @ [chained_from nt (moved Done t w) new_id d1 d2 d3]"
      by auto
    let ?c = "chained_from nt (moved Done t w) new_id d1 d2 d3"
    have "\<exists>c before d.
              Some ?c = Some c
            \<and> stored w' = before @ [c]
            \<and> map task_id before = map task_id (stored w)
            \<and> column c = Todo \<and> status c = Todo
            \<and> parentTaskId c = Some taskId
            \<and> title c = nt_title nt \<and> assignee c = nt_assignee nt
            \<and> description c =
                (case nt_description nt of
                   None \<Rightarrow> chained_description t
                 | Some d \<Rightarrow> if d = [] then chained_description t else d)
            \<and> priority c = (case nt_priority nt of None \<Rightarrow> priority t | Some p \<Rightarrow> p)
            \<and> tags c = (case nt_tags nt of None \<Rightarrow> tags t | Some g \<Rightarrow> g)
            \<and> comments c =
                [\<lparr> author = ''system'', comment_text = created_message t, at = d \<rparr>]"
      apply (rule exI [of _ ?c], rule exI [of _ before], rule exI [of _ d1])
      using st ids i by (simp split: option.splits)
    then show ?thesis using mv sp Some lits by simp
  qed
qed

theorem chaining_witness:
  \<open>lookup (stored chain_board) ''p'' = Some (parent_task None)
   \<and> nextTask (parent_task None) = Some (child_template None)
   \<and> (\<exists>r w' c before d.
          moveTask chain_board ''p'' ''done'' = (Inr r, w')
        \<and> chainedTask r = Some c
        \<and> stored w' = before @ [c]
        \<and> map task_id before = [''p'']
        \<and> column c = Todo \<and> status c = Todo \<and> parentTaskId c = Some ''p''
        \<and> title c = ''Child'' \<and> assignee c = ''b''
        \<and> description c = ''Chained from: Test Task (p)''
        \<and> priority c = Medium \<and> tags c = []
        \<and> comments c = [\<lparr> author = ''system'',
                           comment_text = ''Auto-created from completed task "Test Task" (p)'',
                           at = d \<rparr>])\<close>
proof -
  let ?t = "parent_task None"
  have l: "lookup (stored chain_board) ''p'' = Some ?t"
    by (simp add: chain_board_def lookup_def parent_task_def makeTask_def)
  have g: "\<not> (requiresReview ?t = Some True \<and> column ?t \<noteq> Review)"
    by (simp add: parent_task_def makeTask_def)
  have n: "nextTask ?t = Some (child_template None)"
    by (simp add: parent_task_def)
  from chaining [OF l g] n obtain r w' c before d where
    x: "moveTask chain_board ''p'' ''done'' = (Inr r, w')"
      "chainedTask r = Some c" "stored w' = before @ [c]"
      "map task_id before = map task_id (stored chain_board)"
      "column c = Todo" "status c = Todo" "parentTaskId c = Some ''p''"
      "title c = nt_title (child_template None)" "assignee c = nt_assignee (child_template None)"
      "description c =
         (case nt_description (child_template None) of
            None \<Rightarrow> chained_description ?t
          | Some d \<Rightarrow> if d = [] then chained_description ?t else d)"
      "priority c = (case nt_priority (child_template None) of None \<Rightarrow> priority ?t | Some p \<Rightarrow> p)"
      "tags c = (case nt_tags (child_template None) of None \<Rightarrow> tags ?t | Some g \<Rightarrow> g)"
      "comments c = [\<lparr> author = ''system'', comment_text = created_message ?t, at = d \<rparr>]"
    by auto
  have e: \<open>\<exists>r w' c before d.
          moveTask chain_board ''p'' ''done'' = (Inr r, w')
        \<and> chainedTask r = Some c
        \<and> stored w' = before @ [c]
        \<and> map task_id before = [''p'']
        \<and> column c = Todo \<and> status c = Todo \<and> parentTaskId c = Some ''p''
        \<and> title c = ''Child'' \<and> assignee c = ''b''
        \<and> description c = ''Chained from: Test Task (p)''
        \<and> priority c = Medium \<and> tags c = []
        \<and> comments c = [\<lparr> author = ''system'',
                           comment_text = ''Auto-created from completed task "Test Task" (p)'',
                           at = d \<rparr>]\<close>
    apply (rule exI [of _ r], rule exI [of _ w'], rule exI [of _ c], rule exI [of _ before],
           rule exI [of _ d])
    using x
    by (simp add: child_template_def chained_description_def created_message_def
          parent_task_def makeTask_def chain_board_def)
  show ?thesis using l n e by (intro conjI)
qed

theorem chaining_counterexample:
  "lookup (stored blank_description_board) ''p'' = Some (parent_task (Some ''''))
   \<and> map_option nt_description (nextTask (parent_task (Some ''''))) = Some (Some '''')
   \<and> (case fst (moveTask blank_description_board ''p'' ''done'') of
         Inl e \<Rightarrow> False
       | Inr r \<Rightarrow>
           (case chainedTask r of
              None \<Rightarrow> False
            | Some c \<Rightarrow> description c = ''Chained from: Test Task (p)'' \<and> description c \<noteq> ''''))"
proof -
  let ?t = "parent_task (Some '''')"
  have l: "lookup (stored blank_description_board) ''p'' = Some ?t"
    by (simp add: blank_description_board_def lookup_def parent_task_def makeTask_def)
  have g: "\<not> (requiresReview ?t = Some True \<and> column ?t \<noteq> Review)"
    by (simp add: parent_task_def makeTask_def)
  have n: "nextTask ?t = Some (child_template (Some ''''))"
    by (simp add: parent_task_def)
  from move_done_stored [OF l g] n obtain w' sp new_id d1 d2 d3 where
    mv: "moveTask blank_description_board ''p'' ''done'' =
           (Inr \<lparr> task = moved Done ?t blank_description_board, retried = False,
                  chainedTask = sp \<rparr>, w')"
    and sp: "sp = Some (chained_from (child_template (Some ''''))
                          (moved Done ?t blank_description_board) new_id d1 d2 d3)"
    by auto
  have d: "chained_description ?t = ''Chained from: Test Task (p)''"
    by (simp add: chained_description_def parent_task_def makeTask_def)
  show ?thesis
    using l n mv sp d by (simp add: child_template_def)
qed

section \<open>Column and status mirror each other\<close>

lemma read_tasks_any:
  "read_tasks w =
     (stored w,
      w\<lparr>tasks_json := (case tasks_json w of None \<Rightarrow> Some (Json []) | Some x \<Rightarrow> Some x)\<rparr>)"
  by (simp add: read_tasks_def stored_def readJSON_def split: option.splits file_text.splits)

lemma stored_write_tasks [simp]: "stored (write_tasks ts w) = ts"
  by (simp add: write_tasks_def stored_Json)

lemma stored_createTask: "stored (snd (createTask t w)) = stored w @ [t\<lparr>status := column t\<rparr>]"
  by (simp add: createTask_def withLock_def read_tasks_any Let_def)

lemma updateTask_any:
  "fst (updateTask i u w) = map_option (merged u (clock w (ticks w))) (lookup (stored w) i)
   \<and> stored (snd (updateTask i u w)) = modify (stored w) i (merged u (clock w (ticks w)))"
proof (cases "findIndex (\<lambda>t. task_id t = i) (stored w)")
  case None
  moreover from None have "lookup (stored w) i = None"
    by (simp add: lookup_def findIndex_None)
  ultimately show ?thesis
    by (simp add: updateTask_def withLock_def read_tasks_any modify_def)
next
  case (Some n)
  then have "lookup (stored w) i = Some (stored w ! n)"
    by (simp add: lookup_def findIndex_Some)
  then show ?thesis using Some
    by (simp add: updateTask_def withLock_def read_tasks_any modify_def now_def merged_def Let_def
          cong: option.case_cong)
qed

lemma merged_mirrored:
  "u_column u \<noteq> None \<or> u_status u \<noteq> None \<or> status t = column t \<Longrightarrow>
   status (merged u d t) = column (merged u d t)"
  by (auto simp: merged_column merged_status split: option.splits)

lemma list_all_modify:
  assumes "list_all P ts" "\<And>t. P t \<Longrightarrow> P (f t)"
  shows "list_all P (modify ts i f)"
proof (cases "findIndex (\<lambda>t. task_id t = i) ts")
  case None
  then show ?thesis using assms(1) by (simp add: modify_def)
next
  case (Some n)
  then have n: "n < length ts" by (simp add: findIndex_Some)
  then have "P (f (ts ! n))" using assms by (simp add: list_all_length)
  then have "\<forall>x\<in>set (ts[n := f (ts ! n)]). P x"
    using assms(1) set_update_subset_insert [of ts n "f (ts ! n)"]
    by (auto simp: list_all_iff)
  then show ?thesis using Some by (simp add: modify_def list_all_iff)
qed

lemma apply_call_mirrored:
  assumes "list_all (\<lambda>t. status t = column t) (stored w)"
  shows "list_all (\<lambda>t. status t = column t) (stored (apply_call c w))"
proof (cases c)
  case (Create t)
  then show ?thesis using assms by (simp add: stored_createTask)
next
  case (Update i u)
  have "list_all (\<lambda>t. status t = column t) (modify (stored w) i (merged u (clock w (ticks w))))"
    using assms by (rule list_all_modify) (simp add: merged_mirrored)
  then show ?thesis using Update by (simp add: updateTask_any)
qed

lemma run_calls_mirrored:
  "list_all (\<lambda>t. status t = column t) (stored w) \<Longrightarrow>
   list_all (\<lambda>t. status t = column t) (stored (run_calls cs w))"
  by (induction cs arbitrary: w) (simp_all add: apply_call_mirrored)

lemma modify_member:
  "lookup ts i = Some t \<Longrightarrow> f t \<in> set (modify ts i f)"
proof -
  assume l: "lookup ts i = Some t"
  then obtain n where n: "findIndex (\<lambda>t. task_id t = i) ts = Some n"
    by (cases "findIndex (\<lambda>t. task_id t = i) ts") (auto simp: lookup_def findIndex_None)
  then have "n < length ts" "ts ! n = t"
    using l by (auto simp: lookup_def dest: findIndex_Some)
  then show ?thesis using n by (simp add: modify_def set_update_memI)
qed

text \<open>
  C3. From a collection in which every task has \<^verbatim>\<open>status\<close> equal to \<^verbatim>\<open>column\<close> (an
  empty or missing one among them), after every call of any series of
  \<^verbatim>\<open>createTask\<close> and \<^verbatim>\<open>updateTask\<close> calls every stored task has \<^verbatim>\<open>status\<close> equal to
  \<^verbatim>\<open>column\<close>, whatever the tasks created and whichever of the two fields the updates
  supply. The task an update writes has column and status equal to the supplied
  column when a column is supplied, with or without a status, and equal to the
  supplied status when only a status is.
\<close>

theorem column_status_mirroring:
  assumes "list_all (\<lambda>t. status t = column t) (stored w)"
  shows "(\<forall>n. list_all (\<lambda>t. status t = column t) (stored (run_calls (take n calls) w)))
       \<and> (\<forall>i u t'. fst (updateTask i u w) = Some t' \<longrightarrow>
              t' \<in> set (stored (snd (updateTask i u w)))
            \<and> (\<forall>c. u_column u = Some c \<longrightarrow> column t' = c \<and> status t' = c)
            \<and> (\<forall>s. u_column u = None \<and> u_status u = Some s \<longrightarrow> column t' = s \<and> status t' = s))"
proof (intro conjI allI impI)
  fix n
  show "list_all (\<lambda>t. status t = column t) (stored (run_calls (take n calls) w))"
    using assms by (rule run_calls_mirrored)
next
  fix i u t'
  assume "fst (updateTask i u w) = Some t'"
  then obtain t where t: "lookup (stored w) i = Some t" "t' = merged u (clock w (ticks w)) t"
    by (auto simp: updateTask_any)
  show "t' \<in> set (stored (snd (updateTask i u w)))"
    using modify_member [OF t(1), of "merged u (clock w (ticks w))"] t(2)
    by (simp add: updateTask_any)
  {
    fix c
    assume "u_column u = Some c"
    then show "column t' = c" "status t' = c"
      using t(2) by (simp_all add: merged_column merged_status)
  }
  {
    fix s
    assume "u_column u = None \<and> u_status u = Some s"
    then show "column t' = s" "status t' = s"
      using t(2) by (simp_all add: merged_column merged_status)
  }
qed

theorem column_status_mirroring_witness:
  "list_all (\<lambda>t. status t = column t) (stored fresh_world)
   \<and> list_all (\<lambda>t. status t = column t) (stored (run_calls mirror_calls fresh_world))
   \<and> length (stored (run_calls mirror_calls fresh_world)) = 1
   \<and> (\<exists>t'. fst (updateTask ''x'' (no_updates\<lparr>u_column := Some Review, u_status := Some Failed\<rparr>)
                  (board [makeTask ''x'' Todo []])) = Some t'
          \<and> column t' = Review \<and> status t' = Review)
   \<and> (\<exists>t'. fst (updateTask ''x'' (no_updates\<lparr>u_status := Some Done\<rparr>)
                  (board [makeTask ''x'' Todo []])) = Some t'
          \<and> column t' = Done \<and> status t' = Done)"
proof -
  have h0: "list_all (\<lambda>t. status t = column t) (stored fresh_world)"
    by (simp add: fresh_world_def stored_cases)
  have h1: "list_all (\<lambda>t. status t = column t) (stored (board [makeTask ''x'' Todo []]))"
    by (simp add: makeTask_def)
  let ?b = "board [makeTask ''x'' Todo []]"
  let ?u1 = "no_updates\<lparr>u_column := Some Review, u_status := Some Failed\<rparr>"
  let ?u2 = "no_updates\<lparr>u_status := Some Done\<rparr>"
  have f1: "fst (updateTask ''x'' ?u1 ?b) = Some (merged ?u1 (clock ?b (ticks ?b)) (makeTask ''x'' Todo []))"
    and f2: "fst (updateTask ''x'' ?u2 ?b) = Some (merged ?u2 (clock ?b (ticks ?b)) (makeTask ''x'' Todo []))"
    by (simp_all add: updateTask_any lookup_def makeTask_def)
  note a = column_status_mirroring [OF h0, of mirror_calls, THEN conjunct1, THEN spec, of 4]
  note b = column_status_mirroring [OF h1, of mirror_calls, THEN conjunct2, THEN spec, THEN spec,
             THEN spec, THEN mp, OF f1]
  note c = column_status_mirroring [OF h1, of mirror_calls, THEN conjunct2, THEN spec, THEN spec,
             THEN spec, THEN mp, OF f2]
  have e: "stored fresh_world = []"
    by (simp add: fresh_world_def stored_cases)
  have len: "length (stored (run_calls mirror_calls fresh_world)) = 1"
    by (simp add: mirror_calls_def stored_createTask updateTask_any e)
  have a': "list_all (\<lambda>t. status t = column t) (stored (run_calls mirror_calls fresh_world))"
    using a by (simp add: mirror_calls_def)
  show ?thesis
    using h0 a' len f1 f2 b c by simp
qed

end
